theory Spec2Isabelle
  imports Complex_Main "HOL-Library.Word"
begin

section \<open>Strings, paths and number formatting\<close>

text \<open>
  The script \<^verbatim>\<open>convert-images.js\<close> uses three pieces of the JavaScript
  and Node runtime on strings: \<^verbatim>\<open>String.prototype.replace\<close> with a string
  pattern (the first occurrence is replaced), \<^verbatim>\<open>String.prototype.endsWith\<close>
  and \<^verbatim>\<open>path.join\<close> (POSIX flavour: the arguments are joined with a slash and
  the result is normalised). All filenames of the script are ASCII, so a string is a
  list of characters.
\<close>

definition starts_with :: "string \<Rightarrow> string \<Rightarrow> bool" where
  "starts_with s p = (take (length p) s = p)"

definition ends_with :: "string \<Rightarrow> string \<Rightarrow> bool" where
  "ends_with s suf = (length suf \<le> length s \<and> drop (length s - length suf) s = suf)"

text \<open>\<^verbatim>\<open>s.replace(pat, rep)\<close> for a string \<open>pat\<close> and a replacement without
  dollar patterns: only the first occurrence of \<open>pat\<close> is replaced.\<close>

fun replace_first :: "string \<Rightarrow> string \<Rightarrow> string \<Rightarrow> string" where
  "replace_first [] pat rep = (if pat = [] then rep else [])"
| "replace_first (c # cs) pat rep =
     (if starts_with (c # cs) pat then rep @ drop (length pat) (c # cs)
      else c # replace_first cs pat rep)"

fun split_slash :: "string \<Rightarrow> string list" where
  "split_slash [] = [[]]"
| "split_slash (c # cs) =
     (if c = CHR ''/'' then [] # split_slash cs
      else (case split_slash cs of
              [] \<Rightarrow> [[c]]
            | seg # segs \<Rightarrow> (c # seg) # segs))"

text \<open>The segment walk of Node's \<^verbatim>\<open>normalizeString\<close>: empty segments and
  \<^verbatim>\<open>.\<close> are dropped, \<^verbatim>\<open>..\<close> removes the segment before it, and is kept
  only above the root of a relative path. The second argument is the stack of the
  segments kept so far, last one first.\<close>

fun normalize_segs :: "bool \<Rightarrow> string list \<Rightarrow> string list \<Rightarrow> string list" where
  "normalize_segs allowAboveRoot acc [] = rev acc"
| "normalize_segs allowAboveRoot acc (seg # segs) =
     (if seg = [] \<or> seg = ''.'' then normalize_segs allowAboveRoot acc segs
      else if seg = ''..'' then
        (case acc of
           [] \<Rightarrow> normalize_segs allowAboveRoot (if allowAboveRoot then [''..''] else []) segs
         | lastSeg # earlier \<Rightarrow>
             if lastSeg = ''..'' then normalize_segs allowAboveRoot (''..'' # acc) segs
             else normalize_segs allowAboveRoot earlier segs)
      else normalize_segs allowAboveRoot (seg # acc) segs)"

fun join_slash :: "string list \<Rightarrow> string" where
  "join_slash [] = []"
| "join_slash [s] = s"
| "join_slash (s # t # ss) = s @ ''/'' @ join_slash (t # ss)"

definition path_normalize :: "string \<Rightarrow> string" where
  "path_normalize p =
     (if p = [] then ''.''
      else
        let isAbsolute = (hd p = CHR ''/'');
            trailingSeparator = (last p = CHR ''/'');
            s = join_slash (normalize_segs (\<not> isAbsolute) [] (split_slash p))
        in if s = [] then (if isAbsolute then ''/'' else if trailingSeparator then ''./'' else ''.'')
           else (if isAbsolute then ''/'' else []) @ s @ (if trailingSeparator then ''/'' else []))"

definition path_join :: "string \<Rightarrow> string \<Rightarrow> string" where
  "path_join a b =
     (let joined = (if a = [] then b else if b = [] then a else a @ ''/'' @ b)
      in if joined = [] then ''.'' else path_normalize joined)"

definition digit :: "nat \<Rightarrow> char" where
  "digit n = ''0123456789'' ! (n mod 10)"

fun show_nat :: "nat \<Rightarrow> string" where
  "show_nat n = (if n < 10 then [digit n] else show_nat (n div 10) @ [digit n])"

declare show_nat.simps [simp del]

text \<open>
  \<^verbatim>\<open>(size / 1024 / 1024).toFixed(2)\<close>. A file size is an integer below \<open>2^53\<close>, so
  both divisions by a power of two are exact in double precision, and \<^verbatim>\<open>toFixed(2)\<close>
  picks the integer \<open>h\<close> with \<open>h / 100\<close> nearest to the quotient, the larger one on a
  tie: \<open>h\<close> is the floor of \<open>size * 100 / 2^20 + 1/2\<close>.
\<close>

definition toFixed2_MB :: "nat \<Rightarrow> string" where
  "toFixed2_MB sz =
     (let h = (sz * 200 + 1048576) div 2097152
      in show_nat (h div 100) @ ''.'' @ [digit (h div 10), digit h])"

section \<open>The world of the script: filesystem, console, codec\<close>

type_synonym bytes = "8 word list"

text \<open>What a path names: a regular file with its content, a directory (with the size
  \<^verbatim>\<open>stat\<close> reports for it), or a symbolic link whose target is missing. The last one
  is listed by \<^verbatim>\<open>readdirSync\<close>, but \<^verbatim>\<open>existsSync\<close> answers false and
  \<^verbatim>\<open>statSync\<close> throws for it.\<close>

datatype entry = File bytes | Dir nat | Dangling

text \<open>The filesystem, keyed by the normalised paths relative to the working directory
  (the strings \<^verbatim>\<open>path.join\<close> returns).\<close>

type_synonym filesystem = "(string \<times> entry) list"

definition stat_size :: "filesystem \<Rightarrow> string \<Rightarrow> nat option" where
  "stat_size fs p =
     (case map_of fs p of
        Some (File b) \<Rightarrow> Some (length b)
      | Some (Dir n) \<Rightarrow> Some n
      | Some Dangling \<Rightarrow> None
      | None \<Rightarrow> None)"

definition existsSync :: "filesystem \<Rightarrow> string \<Rightarrow> bool" where
  "existsSync fs p = (stat_size fs p \<noteq> None)"

text \<open>The names directly inside directory \<open>d\<close> (a normalised path): the keys
  \<open>d/name\<close> with no further slash in \<open>name\<close>.\<close>

definition child_name :: "string \<Rightarrow> string \<Rightarrow> string option" where
  "child_name d k =
     (let pre = d @ ''/''; name = drop (length pre) k
      in if starts_with k pre \<and> name \<noteq> [] \<and> CHR ''/'' \<notin> set name then Some name else None)"

definition readdir :: "filesystem \<Rightarrow> string \<Rightarrow> string list option" where
  "readdir fs d =
     (case map_of fs (path_normalize d) of
        Some (Dir n) \<Rightarrow>
          Some (remdups (List.map_filter (child_name (path_normalize d)) (map fst fs)))
      | _ \<Rightarrow> None)"

text \<open>A thrown JavaScript error, with its \<^verbatim>\<open>message\<close>.\<close>

datatype js_error = JsError (message: string)

text \<open>The call \<^verbatim>\<open>sharp(input).resize(width, null, {withoutEnlargement, fit}).webp({quality}).toFile(output)\<close>
  with everything the script passes to the library.\<close>

datatype fit_mode = Cover | Contain | Fill | Inside | Outside

record sharp_call =
  call_input :: string
  resize_width :: nat
  resize_height :: "nat option"
  withoutEnlargement :: bool
  fit :: fit_mode
  webp_quality :: nat
  call_output :: string

text \<open>The library \<^verbatim>\<open>sharp\<close> is not part of the repository: it is a parameter of the
  model. A codec takes the call and the filesystem, and either fulfils (the output is
  written) or rejects with an error; both leave a filesystem behind. The promise is
  taken to settle: a codec that hangs is outside the model.\<close>

datatype codec_result = Written filesystem | Failed js_error filesystem

type_synonym codec = "sharp_call \<Rightarrow> filesystem \<Rightarrow> codec_result"

text \<open>Console output, one constructor for each template of the script, carrying the
  values the template interpolates.\<close>

datatype line =
    Starting
  | TierBanner string
  | NotFound string
  | SourceLine string string
  | Done string string
  | FailedOut string
  | Rule
  | Complete
  | ConvertedCount nat
  | FailedCount nat
  | OutputDirectory string
  | TotalWebp nat
  | OriginalEstimate nat
  | Savings rat

datatype err_line =
    ConvertError string string
  | FatalError js_error

datatype event = Log line | ErrLog err_line | Invoke sharp_call

record world =
  fsys :: filesystem
  trace :: "event list"

text \<open>A computation either returns a value or throws; both leave a world.\<close>

datatype 'a outcome = Return 'a world | Throw js_error world

definition bind :: "'a outcome \<Rightarrow> ('a \<Rightarrow> world \<Rightarrow> 'b outcome) \<Rightarrow> 'b outcome" where
  "bind m k = (case m of Return a w \<Rightarrow> k a w | Throw e w \<Rightarrow> Throw e w)"

definition try_catch :: "'a outcome \<Rightarrow> (js_error \<Rightarrow> world \<Rightarrow> 'a outcome) \<Rightarrow> 'a outcome" where
  "try_catch m h = (case m of Return a w \<Rightarrow> Return a w | Throw e w \<Rightarrow> h e w)"

fun world_of :: "'a outcome \<Rightarrow> world" where
  "world_of (Return a w) = w"
| "world_of (Throw e w) = w"

fun value_of :: "'a outcome \<Rightarrow> 'a option" where
  "value_of (Return a w) = Some a"
| "value_of (Throw e w) = None"

definition emit :: "event \<Rightarrow> world \<Rightarrow> world" where
  "emit ev w = w\<lparr>trace := trace w @ [ev]\<rparr>"

definition console_log :: "line \<Rightarrow> world \<Rightarrow> unit outcome" where
  "console_log l w = Return () (emit (Log l) w)"

definition console_error :: "err_line \<Rightarrow> world \<Rightarrow> unit outcome" where
  "console_error l w = Return () (emit (ErrLog l) w)"

definition statSync :: "string \<Rightarrow> world \<Rightarrow> nat outcome" where
  "statSync p w =
     (case stat_size (fsys w) p of
        Some n \<Rightarrow> Return n w
      | None \<Rightarrow> Throw (JsError (''ENOENT: no such file or directory, stat '' @ p)) w)"

definition readdirSync :: "string \<Rightarrow> world \<Rightarrow> string list outcome" where
  "readdirSync d w =
     (case readdir (fsys w) d of
        Some names \<Rightarrow> Return names w
      | None \<Rightarrow> Throw (JsError (''ENOENT: no such file or directory, scandir '' @ d)) w)"

definition sharp_toFile :: "codec \<Rightarrow> sharp_call \<Rightarrow> world \<Rightarrow> unit outcome" where
  "sharp_toFile sharp call w =
     (case sharp call (fsys w) of
        Written fs' \<Rightarrow> Return () \<lparr>fsys = fs', trace = trace w @ [Invoke call]\<rparr>
      | Failed e fs' \<Rightarrow> Throw e \<lparr>fsys = fs', trace = trace w @ [Invoke call]\<rparr>)"

section \<open>The configuration\<close>

record size_spec =
  suffix :: string
  width :: nat
  quality :: nat

record tier =
  files :: "string list"
  sizes :: "size_spec list"

definition inputDir :: string where
  "inputDir = ''./images/blanche''"

definition config_large :: tier where
  "config_large =
     \<lparr>files = [''004.png'', ''019.png'', ''023.png'', ''032.png'', ''037.png'', ''069.png'', ''075.png''],
      sizes = [\<lparr>suffix = ''small'', width = 640, quality = 75\<rparr>,
               \<lparr>suffix = ''medium'', width = 1024, quality = 75\<rparr>,
               \<lparr>suffix = ''large'', width = 1920, quality = 80\<rparr>,
               \<lparr>suffix = ''thumbnail'', width = 400, quality = 70\<rparr>]\<rparr>"

definition config_product :: tier where
  "config_product =
     \<lparr>files = [''2.png'', ''3.png'', ''5.png''],
      sizes = [\<lparr>suffix = ''small'', width = 640, quality = 75\<rparr>,
               \<lparr>suffix = ''medium'', width = 1024, quality = 75\<rparr>,
               \<lparr>suffix = ''large'', width = 1920, quality = 80\<rparr>]\<rparr>"

definition config_review :: tier where
  "config_review =
     \<lparr>files = [''Review-0.png'', ''Review-1.png'', ''Review-2.png'', ''Review-3.png''],
      sizes = [\<lparr>suffix = ''small'', width = 640, quality = 75\<rparr>,
               \<lparr>suffix = ''medium'', width = 1024, quality = 75\<rparr>]\<rparr>"

section \<open>convertImage and getFileSize\<close>

definition convertImage :: "codec \<Rightarrow> string \<Rightarrow> string \<Rightarrow> nat \<Rightarrow> nat \<Rightarrow> world \<Rightarrow> bool outcome" where
  "convertImage sharp inputPath outputPath wd q w =
     try_catch
       (bind (sharp_toFile sharp
                \<lparr>call_input = inputPath, resize_width = wd, resize_height = None,
                 withoutEnlargement = True, fit = Inside, webp_quality = q,
                 call_output = outputPath\<rparr> w)
          (\<lambda>_ w1. Return True w1))
       (\<lambda>error w1.
          bind (console_error (ConvertError inputPath (message error)) w1)
            (\<lambda>_ w2. Return False w2))"

definition getFileSize :: "string \<Rightarrow> world \<Rightarrow> string outcome" where
  "getFileSize filePath w =
     try_catch
       (bind (statSync filePath w) (\<lambda>sz w1. Return (toFixed2_MB sz @ '' MB'') w1))
       (\<lambda>_ w1. Return ''N/A'' w1)"

section \<open>processImages\<close>

text \<open>The running tally: \<^verbatim>\<open>totalConverted\<close> and \<^verbatim>\<open>totalFailed\<close>.\<close>

type_synonym tally = "nat \<times> nat"

definition outputName_of :: "string \<Rightarrow> size_spec \<Rightarrow> string" where
  "outputName_of filename sz =
     (let baseName = replace_first filename ''.png'' []
      in baseName @ ''-'' @ suffix sz @ ''.webp'')"

text \<open>The body of the inner loop (lines 85 to 99, and their two copies): one
  (file, size) pair.\<close>

definition size_body :: "codec \<Rightarrow> string \<Rightarrow> string \<Rightarrow> size_spec \<Rightarrow> tally \<Rightarrow> world \<Rightarrow> tally outcome" where
  "size_body sharp filename inputPath sz t w =
     (let outputName = outputName_of filename sz;
          outputPath = path_join inputDir outputName
      in bind (convertImage sharp inputPath outputPath (width sz) (quality sz) w)
           (\<lambda>success w1.
              if success then
                bind (getFileSize outputPath w1) (\<lambda>newSize w2.
                bind (console_log (Done outputName newSize) w2) (\<lambda>_ w3.
                Return (fst t + 1, snd t) w3))
              else
                bind (console_log (FailedOut outputName) w1) (\<lambda>_ w2.
                Return (fst t, snd t + 1) w2)))"

fun sizes_loop :: "codec \<Rightarrow> string \<Rightarrow> string \<Rightarrow> size_spec list \<Rightarrow> tally \<Rightarrow> world \<Rightarrow> tally outcome" where
  "sizes_loop sharp filename inputPath [] t w = Return t w"
| "sizes_loop sharp filename inputPath (sz # rest) t w =
     bind (size_body sharp filename inputPath sz t w)
       (\<lambda>t1 w1. sizes_loop sharp filename inputPath rest t1 w1)"

text \<open>The body of the outer loop (lines 74 to 100, and their two copies): one
  filename of a tier.\<close>

definition file_body :: "codec \<Rightarrow> size_spec list \<Rightarrow> string \<Rightarrow> tally \<Rightarrow> world \<Rightarrow> tally outcome" where
  "file_body sharp szs filename t w =
     (let inputPath = path_join inputDir filename
      in if \<not> existsSync (fsys w) inputPath then
           bind (console_log (NotFound filename) w) (\<lambda>_ w1. Return t w1)
         else
           bind (getFileSize inputPath w) (\<lambda>originalSize w1.
           bind (console_log (SourceLine filename originalSize) w1) (\<lambda>_ w2.
           sizes_loop sharp filename inputPath szs t w2)))"

fun files_loop :: "codec \<Rightarrow> size_spec list \<Rightarrow> string list \<Rightarrow> tally \<Rightarrow> world \<Rightarrow> tally outcome" where
  "files_loop sharp szs [] t w = Return t w"
| "files_loop sharp szs (filename # rest) t w =
     bind (file_body sharp szs filename t w) (\<lambda>t1 w1. files_loop sharp szs rest t1 w1)"

text \<open>The three loops of \<^verbatim>\<open>processImages\<close> are the same text over
  \<^verbatim>\<open>config.large\<close>, \<^verbatim>\<open>config.product\<close> and \<^verbatim>\<open>config.review\<close>; the
  model runs one loop function over each tier in turn (lines 67 to 158).\<close>

definition tier_loop :: "codec \<Rightarrow> string \<Rightarrow> tier \<Rightarrow> tally \<Rightarrow> world \<Rightarrow> tally outcome" where
  "tier_loop sharp banner tr t w =
     bind (console_log (TierBanner banner) w)
       (\<lambda>_ w1. files_loop sharp (sizes tr) (files tr) t w1)"

definition traverse :: "codec \<Rightarrow> world \<Rightarrow> tally outcome" where
  "traverse sharp w =
     bind (console_log Starting w) (\<lambda>_ w1.
     bind (tier_loop sharp ''large'' config_large (0, 0) w1) (\<lambda>t2 w2.
     bind (tier_loop sharp ''product'' config_product t2 w2) (\<lambda>t3 w3.
     tier_loop sharp ''review'' config_review t3 w3)))"

text \<open>Lines 169 to 173: the sizes of the listed files are added up; a
  \<^verbatim>\<open>statSync\<close> that throws ends the loop with the error.\<close>

fun sum_sizes :: "string list \<Rightarrow> nat \<Rightarrow> world \<Rightarrow> nat outcome" where
  "sum_sizes [] totalWebpSize w = Return totalWebpSize w"
| "sum_sizes (file # rest) totalWebpSize w =
     bind (statSync (path_join inputDir file) w)
       (\<lambda>sz w1. sum_sizes rest (totalWebpSize + sz) w1)"

text \<open>The value a JavaScript function hands to its caller. A function that ends
  without a \<^verbatim>\<open>return\<close> statement yields \<^verbatim>\<open>undefined\<close>.\<close>

datatype js_value = Undefined | Num nat | Str string | Obj "(string \<times> js_value) list"

definition savings :: "nat \<Rightarrow> rat" where
  "savings totalWebpSize = (1 - of_nat totalWebpSize / (153 * 1024 * 1024)) * 100"

text \<open>Lines 160 to 177: the summary. \<^verbatim>\<open>TotalWebp\<close> carries the byte count (printed
  in MB with two decimals), \<^verbatim>\<open>Savings\<close> the exact value of the expression (printed
  with one decimal).\<close>

definition report :: "tally \<Rightarrow> world \<Rightarrow> js_value outcome" where
  "report t w =
     bind (console_log Rule w) (\<lambda>_ w1.
     bind (console_log Complete w1) (\<lambda>_ w2.
     bind (console_log (ConvertedCount (fst t)) w2) (\<lambda>_ w3.
     bind (console_log (FailedCount (snd t)) w3) (\<lambda>_ w4.
     bind (console_log (OutputDirectory inputDir) w4) (\<lambda>_ w5.
     bind (console_log Rule w5) (\<lambda>_ w6.
     bind (readdirSync inputDir w6) (\<lambda>names w7.
     bind (sum_sizes (filter (\<lambda>f. ends_with f ''.webp'') names) 0 w7) (\<lambda>totalWebpSize w8.
     bind (console_log (TotalWebp totalWebpSize) w8) (\<lambda>_ w9.
     bind (console_log (OriginalEstimate 153) w9) (\<lambda>_ w10.
     bind (console_log (Savings (savings totalWebpSize)) w10) (\<lambda>_ w11.
     Return Undefined w11)))))))))))"

definition processImages :: "codec \<Rightarrow> world \<Rightarrow> js_value outcome" where
  "processImages sharp w = bind (traverse sharp w) (\<lambda>t w1. report t w1)"

text \<open>Lines 181 to 184: the process. When the promise of \<^verbatim>\<open>processImages\<close> is
  fulfilled, nothing is left to run and the process ends with status 0; when it is
  rejected, the handler reports the error and calls \<^verbatim>\<open>process.exit(1)\<close>.\<close>

definition script :: "codec \<Rightarrow> world \<Rightarrow> nat \<times> world" where
  "script sharp w =
     (case processImages sharp w of
        Return v w1 \<Rightarrow> (0, w1)
      | Throw error w1 \<Rightarrow> (1, emit (ErrLog (FatalError error)) w1))"

section \<open>Vocabulary for the properties\<close>

subsection \<open>Reading a run\<close>

text \<open>The call \<^verbatim>\<open>convertImage\<close> hands to the codec, and the call made for one
  (file, size) pair of the configuration, with its source and output paths.\<close>

definition conversion_call :: "string \<Rightarrow> string \<Rightarrow> nat \<Rightarrow> nat \<Rightarrow> sharp_call" where
  "conversion_call inputPath outputPath wd q =
     \<lparr>call_input = inputPath, resize_width = wd, resize_height = None,
      withoutEnlargement = True, fit = Inside, webp_quality = q, call_output = outputPath\<rparr>"

definition pair_call :: "string \<Rightarrow> size_spec \<Rightarrow> sharp_call" where
  "pair_call filename sz =
     conversion_call (path_join inputDir filename)
       (path_join inputDir (outputName_of filename sz)) (width sz) (quality sz)"

abbreviation src_path :: "string \<Rightarrow> string" where
  "src_path filename \<equiv> path_join inputDir filename"

abbreviation out_path :: "string \<Rightarrow> size_spec \<Rightarrow> string" where
  "out_path filename sz \<equiv> path_join inputDir (outputName_of filename sz)"

text \<open>The text \<^verbatim>\<open>getFileSize\<close> returns for a path, the filesystem a codec
  leaves behind, the codec invocations recorded in a trace, the numbers of success and
  failure lines in it, and a world moved to another filesystem.\<close>

definition size_text :: "filesystem \<Rightarrow> string \<Rightarrow> string" where
  "size_text fs p = (case stat_size fs p of Some n \<Rightarrow> toFixed2_MB n @ '' MB'' | None \<Rightarrow> ''N/A'')"

fun result_fs :: "codec_result \<Rightarrow> filesystem" where
  "result_fs (Written fs) = fs"
| "result_fs (Failed e fs) = fs"

fun invocations :: "event list \<Rightarrow> sharp_call list" where
  "invocations [] = []"
| "invocations (Invoke c # evs) = c # invocations evs"
| "invocations (ev # evs) = invocations evs"

fun conversions :: "event list \<Rightarrow> nat" where
  "conversions [] = 0"
| "conversions (Log (Done n s) # evs) = Suc (conversions evs)"
| "conversions (ev # evs) = conversions evs"

fun failures :: "event list \<Rightarrow> nat" where
  "failures [] = 0"
| "failures (Log (FailedOut n) # evs) = Suc (failures evs)"
| "failures (ev # evs) = failures evs"

definition at_fs :: "filesystem \<Rightarrow> world \<Rightarrow> world" where
  "at_fs F w = w\<lparr>fsys := F\<rparr>"

subsection \<open>The summary\<close>

text \<open>The size the summary adds for a directory entry, whether the listing and every
  size read of the summary succeed, the total they give, and the six lines printed before
  the directory is read.\<close>

definition entry_size :: "filesystem \<Rightarrow> string \<Rightarrow> nat" where
  "entry_size fs name = (case stat_size fs (path_join inputDir name) of Some n \<Rightarrow> n | None \<Rightarrow> 0)"

definition summary_ok :: "filesystem \<Rightarrow> bool" where
  "summary_ok fs =
     (case readdir fs inputDir of
        None \<Rightarrow> False
      | Some names \<Rightarrow> list_all (\<lambda>n. existsSync fs (path_join inputDir n)) (filter (\<lambda>f. ends_with f ''.webp'') names))"

definition webp_total :: "filesystem \<Rightarrow> nat" where
  "webp_total fs =
     (case readdir fs inputDir of
        None \<Rightarrow> 0
      | Some names \<Rightarrow> sum_list (map (entry_size fs) (filter (\<lambda>f. ends_with f ''.webp'') names)))"

definition summary_lines :: "tally \<Rightarrow> event list" where
  "summary_lines t =
     [Log Rule, Log Complete, Log (ConvertedCount (fst t)), Log (FailedCount (snd t)),
      Log (OutputDirectory inputDir), Log Rule]"

subsection \<open>The configuration as lists\<close>

text \<open>The three tiers in the order \<^verbatim>\<open>processImages\<close> walks them, their
  (file, size) pairs, the pairs whose source exists in a filesystem and the calls made
  for them; then the output names and the paths of the configuration, written out.\<close>

definition tiers :: "tier list" where
  "tiers = [config_large, config_product, config_review]"

definition tier_pairs :: "tier \<Rightarrow> (string \<times> size_spec) list" where
  "tier_pairs tr = List.product (files tr) (sizes tr)"

definition config_pairs :: "(string \<times> size_spec) list" where
  "config_pairs = concat (map tier_pairs tiers)"

definition attempted :: "filesystem \<Rightarrow> (string \<times> size_spec) list \<Rightarrow> (string \<times> size_spec) list" where
  "attempted fs pairs = filter (\<lambda>(filename, sz). existsSync fs (src_path filename)) pairs"

definition planned_calls :: "filesystem \<Rightarrow> sharp_call list" where
  "planned_calls fs = map (\<lambda>(fn, sz). pair_call fn sz) (attempted fs config_pairs)"

definition all_output_names :: "string list" where
  "all_output_names =
     [''004-small.webp'', ''004-medium.webp'', ''004-large.webp'',
      ''004-thumbnail.webp'', ''019-small.webp'', ''019-medium.webp'',
      ''019-large.webp'', ''019-thumbnail.webp'', ''023-small.webp'',
      ''023-medium.webp'', ''023-large.webp'', ''023-thumbnail.webp'',
      ''032-small.webp'', ''032-medium.webp'', ''032-large.webp'',
      ''032-thumbnail.webp'', ''037-small.webp'', ''037-medium.webp'',
      ''037-large.webp'', ''037-thumbnail.webp'', ''069-small.webp'',
      ''069-medium.webp'', ''069-large.webp'', ''069-thumbnail.webp'',
      ''075-small.webp'', ''075-medium.webp'', ''075-large.webp'',
      ''075-thumbnail.webp'', ''2-small.webp'', ''2-medium.webp'', ''2-large.webp'',
      ''3-small.webp'', ''3-medium.webp'', ''3-large.webp'', ''5-small.webp'',
      ''5-medium.webp'', ''5-large.webp'', ''Review-0-small.webp'',
      ''Review-0-medium.webp'', ''Review-1-small.webp'', ''Review-1-medium.webp'',
      ''Review-2-small.webp'', ''Review-2-medium.webp'', ''Review-3-small.webp'',
      ''Review-3-medium.webp'']"

definition all_output_paths :: "string list" where
  "all_output_paths =
     [''images/blanche/004-small.webp'', ''images/blanche/004-medium.webp'',
      ''images/blanche/004-large.webp'', ''images/blanche/004-thumbnail.webp'',
      ''images/blanche/019-small.webp'', ''images/blanche/019-medium.webp'',
      ''images/blanche/019-large.webp'', ''images/blanche/019-thumbnail.webp'',
      ''images/blanche/023-small.webp'', ''images/blanche/023-medium.webp'',
      ''images/blanche/023-large.webp'', ''images/blanche/023-thumbnail.webp'',
      ''images/blanche/032-small.webp'', ''images/blanche/032-medium.webp'',
      ''images/blanche/032-large.webp'', ''images/blanche/032-thumbnail.webp'',
      ''images/blanche/037-small.webp'', ''images/blanche/037-medium.webp'',
      ''images/blanche/037-large.webp'', ''images/blanche/037-thumbnail.webp'',
      ''images/blanche/069-small.webp'', ''images/blanche/069-medium.webp'',
      ''images/blanche/069-large.webp'', ''images/blanche/069-thumbnail.webp'',
      ''images/blanche/075-small.webp'', ''images/blanche/075-medium.webp'',
      ''images/blanche/075-large.webp'', ''images/blanche/075-thumbnail.webp'',
      ''images/blanche/2-small.webp'', ''images/blanche/2-medium.webp'',
      ''images/blanche/2-large.webp'', ''images/blanche/3-small.webp'',
      ''images/blanche/3-medium.webp'', ''images/blanche/3-large.webp'',
      ''images/blanche/5-small.webp'', ''images/blanche/5-medium.webp'',
      ''images/blanche/5-large.webp'', ''images/blanche/Review-0-small.webp'',
      ''images/blanche/Review-0-medium.webp'',
      ''images/blanche/Review-1-small.webp'',
      ''images/blanche/Review-1-medium.webp'',
      ''images/blanche/Review-2-small.webp'',
      ''images/blanche/Review-2-medium.webp'',
      ''images/blanche/Review-3-small.webp'',
      ''images/blanche/Review-3-medium.webp'']"

definition all_source_paths :: "string list" where
  "all_source_paths =
     [''images/blanche/004.png'', ''images/blanche/019.png'',
      ''images/blanche/023.png'', ''images/blanche/032.png'',
      ''images/blanche/037.png'', ''images/blanche/069.png'',
      ''images/blanche/075.png'', ''images/blanche/2.png'', ''images/blanche/3.png'',
      ''images/blanche/5.png'', ''images/blanche/Review-0.png'',
      ''images/blanche/Review-1.png'', ''images/blanche/Review-2.png'',
      ''images/blanche/Review-3.png'']"

definition outputs_004 :: "string list" where
  "outputs_004 =
     [''images/blanche/004-small.webp'', ''images/blanche/004-medium.webp'',
      ''images/blanche/004-large.webp'', ''images/blanche/004-thumbnail.webp'']"

definition small :: size_spec where
  "small = \<lparr>suffix = ''small'', width = 640, quality = 75\<rparr>"

definition medium :: size_spec where
  "medium = \<lparr>suffix = ''medium'', width = 1024, quality = 75\<rparr>"

subsection \<open>The words of the specification\<close>

text \<open>The output name as the specification words it: the known source extension is
  stripped from the end of the filename, and \<^verbatim>\<open>-suffix.webp\<close> is appended.\<close>

definition strip_ext :: "string \<Rightarrow> string \<Rightarrow> string" where
  "strip_ext name ext =
     (if ends_with name ext then take (length name - length ext) name else name)"

definition spec_output_name :: "string \<Rightarrow> size_spec \<Rightarrow> string" where
  "spec_output_name filename sz = strip_ext filename ''.png'' @ ''-'' @ suffix sz @ ''.webp''"

text \<open>The specification has \<^verbatim>\<open>runBatch\<close> return a \<^verbatim>\<open>ConversionResult\<close> with
  the fields \<^verbatim>\<open>succeeded\<close> and \<^verbatim>\<open>failed\<close>: a value carries a tally when it has these
  two fields with these counts.\<close>

fun field :: "js_value \<Rightarrow> string \<Rightarrow> js_value option" where
  "field (Obj kvs) k = map_of kvs k"
| "field v k = None"

definition carries_tally :: "js_value \<Rightarrow> tally \<Rightarrow> bool" where
  "carries_tally v t =
     (field v ''succeeded'' = Some (Num (fst t)) \<and> field v ''failed'' = Some (Num (snd t)))"

subsection \<open>Contracts of a codec\<close>

text \<open>Three things the library promises and the script relies on, each a hypothesis
  where it is needed: a call changes no path but its output path; a call that fulfils
  leaves a regular file at its output path; a call with \<^verbatim>\<open>withoutEnlargement\<close> and
  \<^verbatim>\<open>fit: 'inside'\<close> that fulfils has read an image file and written one that is no
  wider than the requested width and no wider than the source (the width of an image
  being a function of its bytes). \<open>replay\<close> runs a list of calls in order.\<close>

definition keeps_other_paths :: "codec \<Rightarrow> bool" where
  "keeps_other_paths sharp =
     (\<forall>call fs p. p \<noteq> call_output call \<longrightarrow> map_of (result_fs (sharp call fs)) p = map_of fs p)"

definition writes_output :: "codec \<Rightarrow> bool" where
  "writes_output sharp =
     (\<forall>call fs fs'. sharp call fs = Written fs' \<longrightarrow>
        (\<exists>b. map_of fs' (call_output call) = Some (File b)))"

definition no_upscale_contract :: "(bytes \<Rightarrow> nat option) \<Rightarrow> codec \<Rightarrow> bool" where
  "no_upscale_contract width_of sharp =
     (\<forall>call fs fs'.
        sharp call fs = Written fs' \<and> withoutEnlargement call \<and> fit call = Inside \<longrightarrow>
        (\<exists>src out ws wo.
           map_of fs (call_input call) = Some (File src)
         \<and> map_of fs' (call_output call) = Some (File out)
         \<and> width_of src = Some ws \<and> width_of out = Some wo
         \<and> wo \<le> resize_width call \<and> wo \<le> ws))"

definition replay :: "codec \<Rightarrow> filesystem \<Rightarrow> sharp_call list \<Rightarrow> filesystem" where
  "replay sharp fs calls = foldl (\<lambda>fs call. result_fs (sharp call fs)) fs calls"

subsection \<open>Stable codecs\<close>

text \<open>A stable codec answers from the content of the source file, the width and the
  quality alone (the encoder \<open>enc\<close>), rejects a source that is not a regular file, and
  on success writes the encoded bytes at the output path, replacing what was there.\<close>

fun write_file :: "string \<Rightarrow> entry \<Rightarrow> filesystem \<Rightarrow> filesystem" where
  "write_file p e [] = [(p, e)]"
| "write_file p e ((k, v) # fs) = (if k = p then (p, e) # fs else (k, v) # write_file p e fs)"

definition planned :: "(bytes \<Rightarrow> nat \<Rightarrow> nat \<Rightarrow> js_error + bytes) \<Rightarrow> entry option \<Rightarrow> sharp_call \<Rightarrow> js_error + bytes" where
  "planned enc source call =
     (case source of
        Some (File src) \<Rightarrow> enc src (resize_width call) (webp_quality call)
      | _ \<Rightarrow> Inl (JsError ''Input file is missing''))"

definition stable_codec :: "(bytes \<Rightarrow> nat \<Rightarrow> nat \<Rightarrow> js_error + bytes) \<Rightarrow> codec" where
  "stable_codec enc call fs =
     (case map_of fs (call_input call) of
        Some (File src) \<Rightarrow>
          (case enc src (resize_width call) (webp_quality call) of
             Inr out \<Rightarrow> Written (write_file (call_output call) (File out) fs)
           | Inl e \<Rightarrow> Failed e fs)
      | _ \<Rightarrow> Failed (JsError ''Input file is missing'') fs)"

subsection \<open>A concrete run\<close>

text \<open>A directory with the source \<^verbatim>\<open>004.png\<close> (5 bytes) and an older
  \<^verbatim>\<open>old.webp\<close> (3 bytes); an encoder that keeps the first \<open>width\<close> bytes and
  fails for the width 1024, and one that never fails; the byte count as the width of an
  image. Then the worlds these runs end in.\<close>

definition demo_enc :: "bytes \<Rightarrow> nat \<Rightarrow> nat \<Rightarrow> js_error + bytes" where
  "demo_enc src wd q = (if wd = 1024 then Inl (JsError ''boom'') else Inr (take wd src))"

definition copy_enc :: "bytes \<Rightarrow> nat \<Rightarrow> nat \<Rightarrow> js_error + bytes" where
  "copy_enc src wd q = Inr (take wd src)"

definition demo_width :: "bytes \<Rightarrow> nat option" where
  "demo_width b = Some (length b)"

definition demo_fs :: filesystem where
  "demo_fs = [(''images/blanche'', Dir 4096), (''images/blanche/004.png'', File [1, 2, 3, 4, 5]),
              (''images/blanche/old.webp'', File [7, 7, 7])]"

definition demo_world :: world where
  "demo_world = \<lparr>fsys = demo_fs, trace = []\<rparr>"

definition demo_fs_after :: filesystem where
  "demo_fs_after =
     [(''images/blanche'', Dir 4096),
      (''images/blanche/004.png'', File [1, 2, 3, 4, 5]),
      (''images/blanche/old.webp'', File [7, 7, 7]),
      (''images/blanche/004-small.webp'', File [1, 2, 3, 4, 5]),
      (''images/blanche/004-large.webp'', File [1, 2, 3, 4, 5]),
      (''images/blanche/004-thumbnail.webp'', File [1, 2, 3, 4, 5])]"

definition demo_events :: "event list" where
  "demo_events =
     [Log Starting, Log (TierBanner ''large''),
      Log (SourceLine ''004.png'' ''0.00 MB''),
      Invoke (pair_call ''004.png'' \<lparr>suffix = ''small'', width = 640, quality = 75\<rparr>),
      Log (Done ''004-small.webp'' ''0.00 MB''),
      Invoke (pair_call ''004.png'' \<lparr>suffix = ''medium'', width = 1024, quality = 75\<rparr>),
      ErrLog (ConvertError ''images/blanche/004.png'' ''boom''),
      Log (FailedOut ''004-medium.webp''),
      Invoke (pair_call ''004.png'' \<lparr>suffix = ''large'', width = 1920, quality = 80\<rparr>),
      Log (Done ''004-large.webp'' ''0.00 MB''),
      Invoke (pair_call ''004.png'' \<lparr>suffix = ''thumbnail'', width = 400, quality = 70\<rparr>),
      Log (Done ''004-thumbnail.webp'' ''0.00 MB''),
      Log (NotFound ''019.png''), Log (NotFound ''023.png''),
      Log (NotFound ''032.png''), Log (NotFound ''037.png''),
      Log (NotFound ''069.png''), Log (NotFound ''075.png''),
      Log (TierBanner ''product''), Log (NotFound ''2.png''),
      Log (NotFound ''3.png''), Log (NotFound ''5.png''),
      Log (TierBanner ''review''), Log (NotFound ''Review-0.png''),
      Log (NotFound ''Review-1.png''), Log (NotFound ''Review-2.png''),
      Log (NotFound ''Review-3.png'')]"

definition demo_after :: world where
  "demo_after = \<lparr>fsys = demo_fs_after, trace = demo_events\<rparr>"

definition demo_final :: world where
  "demo_final =
     \<lparr>fsys = demo_fs_after,
      trace = demo_events @
        [Log Rule, Log Complete, Log (ConvertedCount 3), Log (FailedCount 1),
         Log (OutputDirectory ''./images/blanche''), Log Rule,
         Log (TotalWebp 18), Log (OriginalEstimate 153), Log (Savings (savings 18))]\<rparr>"

definition demo_004 :: world where
  "demo_004 =
     \<lparr>fsys = demo_fs @
        [(''images/blanche/004-small.webp'', File [1, 2, 3, 4, 5]),
         (''images/blanche/004-medium.webp'', File [1, 2, 3, 4, 5]),
         (''images/blanche/004-large.webp'', File [1, 2, 3, 4, 5]),
         (''images/blanche/004-thumbnail.webp'', File [1, 2, 3, 4, 5])],
      trace =
        [Log (SourceLine ''004.png'' ''0.00 MB''),
         Invoke (pair_call ''004.png'' \<lparr>suffix = ''small'', width = 640, quality = 75\<rparr>),
         Log (Done ''004-small.webp'' ''0.00 MB''),
         Invoke (pair_call ''004.png'' \<lparr>suffix = ''medium'', width = 1024, quality = 75\<rparr>),
         Log (Done ''004-medium.webp'' ''0.00 MB''),
         Invoke (pair_call ''004.png'' \<lparr>suffix = ''large'', width = 1920, quality = 80\<rparr>),
         Log (Done ''004-large.webp'' ''0.00 MB''),
         Invoke (pair_call ''004.png'' \<lparr>suffix = ''thumbnail'', width = 400, quality = 70\<rparr>),
         Log (Done ''004-thumbnail.webp'' ''0.00 MB'')]\<rparr>"

text \<open>A world without the input directory.\<close>

definition no_directory :: world where
  "no_directory = \<lparr>fsys = [], trace = []\<rparr>"

section \<open>Basic facts\<close>

lemma bind_Return [simp]: "bind (Return a w) k = k a w"
  by (simp add: bind_def)

lemma bind_Throw [simp]: "bind (Throw e w) k = Throw e w"
  by (simp add: bind_def)

lemma try_catch_Return [simp]: "try_catch (Return a w) h = Return a w"
  by (simp add: try_catch_def)

lemma try_catch_Throw [simp]: "try_catch (Throw e w) h = h e w"
  by (simp add: try_catch_def)

lemma fsys_emit [simp]: "fsys (emit ev w) = fsys w"
  by (simp add: emit_def)

lemma trace_emit [simp]: "trace (emit ev w) = trace w @ [ev]"
  by (simp add: emit_def)

lemma fsys_at_fs [simp]: "fsys (at_fs F w) = F"
  by (simp add: at_fs_def)

lemma trace_at_fs [simp]: "trace (at_fs F w) = trace w"
  by (simp add: at_fs_def)

lemma at_fs_emit [simp]: "at_fs F (emit ev w) = emit ev (at_fs F w)"
  by (simp add: at_fs_def emit_def)

lemma at_fs_own [simp]: "at_fs (fsys w) w = w"
  by (simp add: at_fs_def)

lemma invocations_append [simp]: "invocations (xs @ ys) = invocations xs @ invocations ys"
  by (induction xs rule: invocations.induct) simp_all

lemma conversions_append [simp]: "conversions (xs @ ys) = conversions xs + conversions ys"
  by (induction xs rule: conversions.induct) simp_all

lemma failures_append [simp]: "failures (xs @ ys) = failures xs + failures ys"
  by (induction xs rule: failures.induct) simp_all

lemma existsSync_same:
  "map_of fs p = map_of fs' p \<Longrightarrow> existsSync fs p = existsSync fs' p"
  by (simp add: existsSync_def stat_size_def)

lemma size_text_same:
  "map_of fs p = map_of fs' p \<Longrightarrow> size_text fs p = size_text fs' p"
  by (simp add: size_text_def stat_size_def)

lemma getFileSize_eq: "getFileSize p w = Return (size_text (fsys w) p) w"
  by (simp add: getFileSize_def statSync_def size_text_def split: option.splits)

lemma convertImage_eq:
  "convertImage sharp ip outp wd q w =
     (case sharp (conversion_call ip outp wd q) (fsys w) of
        Written fs' \<Rightarrow>
          Return True \<lparr>fsys = fs', trace = trace w @ [Invoke (conversion_call ip outp wd q)]\<rparr>
      | Failed e fs' \<Rightarrow>
          Return False
            \<lparr>fsys = fs',
             trace = trace w @ [Invoke (conversion_call ip outp wd q),
                                ErrLog (ConvertError ip (message e))]\<rparr>)"
  by (simp add: convertImage_def sharp_toFile_def conversion_call_def console_error_def emit_def
      split: codec_result.splits)

lemma size_body_eq:
  "size_body sharp filename (path_join inputDir filename) sz t w =
     (case sharp (pair_call filename sz) (fsys w) of
        Written fs' \<Rightarrow>
          Return (fst t + 1, snd t)
            \<lparr>fsys = fs',
             trace = trace w @ [Invoke (pair_call filename sz),
                                Log (Done (outputName_of filename sz)
                                       (size_text fs' (path_join inputDir (outputName_of filename sz))))]\<rparr>
      | Failed e fs' \<Rightarrow>
          Return (fst t, snd t + 1)
            \<lparr>fsys = fs',
             trace = trace w @ [Invoke (pair_call filename sz),
                                ErrLog (ConvertError (path_join inputDir filename) (message e)),
                                Log (FailedOut (outputName_of filename sz))]\<rparr>)"
  by (simp add: size_body_def Let_def convertImage_eq pair_call_def getFileSize_eq console_log_def emit_def
      split: codec_result.splits)

lemma size_body_Failed:
  "sharp (pair_call fn sz) (fsys w) = Failed e fs' \<Longrightarrow>
     size_body sharp fn (src_path fn) sz t w =
       Return (fst t, snd t + 1)
         \<lparr>fsys = fs',
          trace = trace w @ [Invoke (pair_call fn sz),
                             ErrLog (ConvertError (src_path fn) (message e)),
                             Log (FailedOut (outputName_of fn sz))]\<rparr>"
  by (simp add: size_body_eq)

lemma size_body_Written:
  "sharp (pair_call fn sz) (fsys w) = Written fs' \<Longrightarrow>
     size_body sharp fn (src_path fn) sz t w =
       Return (fst t + 1, snd t)
         \<lparr>fsys = fs',
          trace = trace w @ [Invoke (pair_call fn sz),
                             Log (Done (outputName_of fn sz) (size_text fs' (out_path fn sz)))]\<rparr>"
  by (simp add: size_body_eq)

lemma size_body_no_failure:
  assumes "size_body sharp fn (src_path fn) sz t w = Return t1 w1" and "snd t1 = snd t"
  shows "sharp (pair_call fn sz) (fsys w) = Written (fsys w1)"
  using assms by (cases "sharp (pair_call fn sz) (fsys w)") (auto simp: size_body_eq)

section \<open>The loops never throw\<close>

text \<open>One (file, size) pair: the codec is invoked once, and exactly one of the two
  counters goes up by one.\<close>

lemma size_body_effect:
  "\<exists>t' w' evs. size_body sharp fn (path_join inputDir fn) sz t w = Return t' w'
     \<and> trace w' = trace w @ evs
     \<and> fsys w' = result_fs (sharp (pair_call fn sz) (fsys w))
     \<and> invocations evs = [pair_call fn sz]
     \<and> fst t' = fst t + conversions evs
     \<and> snd t' = snd t + failures evs
     \<and> conversions evs + failures evs = 1"
  by (cases "sharp (pair_call fn sz) (fsys w)") (simp_all add: size_body_eq)

lemma sizes_loop_effect:
  "\<exists>t' w' evs. sizes_loop sharp fn (path_join inputDir fn) szs t w = Return t' w'
     \<and> trace w' = trace w @ evs
     \<and> invocations evs = map (pair_call fn) szs
     \<and> fst t' = fst t + conversions evs
     \<and> snd t' = snd t + failures evs
     \<and> conversions evs + failures evs = length szs"
proof (induction szs arbitrary: t w)
  case Nil
  show ?case by simp
next
  case (Cons sz rest)
  obtain t1 w1 evs1 where
    b: "size_body sharp fn (path_join inputDir fn) sz t w = Return t1 w1"
    and tr1: "trace w1 = trace w @ evs1"
    and inv1: "invocations evs1 = [pair_call fn sz]"
    and c1: "fst t1 = fst t + conversions evs1"
    and f1: "snd t1 = snd t + failures evs1"
    and n1: "conversions evs1 + failures evs1 = 1"
    using size_body_effect [of sharp fn sz t w] by blast
  obtain t2 w2 evs2 where
    l: "sizes_loop sharp fn (path_join inputDir fn) rest t1 w1 = Return t2 w2"
    and tr2: "trace w2 = trace w1 @ evs2"
    and inv2: "invocations evs2 = map (pair_call fn) rest"
    and c2: "fst t2 = fst t1 + conversions evs2"
    and f2: "snd t2 = snd t1 + failures evs2"
    and n2: "conversions evs2 + failures evs2 = length rest"
    using Cons.IH [of t1 w1] by blast
  have "sizes_loop sharp fn (path_join inputDir fn) (sz # rest) t w = Return t2 w2"
    using b l by simp
  moreover have "trace w2 = trace w @ (evs1 @ evs2)"
    using tr1 tr2 by simp
  moreover have "invocations (evs1 @ evs2) = map (pair_call fn) (sz # rest)"
    using inv1 inv2 by simp
  moreover have "fst t2 = fst t + conversions (evs1 @ evs2)"
    using c1 c2 by simp
  moreover have "snd t2 = snd t + failures (evs1 @ evs2)"
    using f1 f2 by simp
  moreover have "conversions (evs1 @ evs2) + failures (evs1 @ evs2) = length (sz # rest)"
    using n1 n2 by simp
  ultimately show ?case by blast
qed

lemma sizes_loop_failed_mono:
  assumes "sizes_loop sharp fn (src_path fn) szs t w = Return t' w'"
  shows "snd t \<le> snd t'"
  using sizes_loop_effect [of sharp fn szs t w] assms by auto

text \<open>One filename: skipped with a notice when the source is missing, otherwise every
  size of the tier is attempted.\<close>

lemma file_body_missing:
  "\<not> existsSync (fsys w) (path_join inputDir fn) \<Longrightarrow>
     file_body sharp szs fn t w = Return t (emit (Log (NotFound fn)) w)"
  by (simp add: file_body_def console_log_def)

lemma file_body_present:
  "existsSync (fsys w) (path_join inputDir fn) \<Longrightarrow>
     file_body sharp szs fn t w =
       sizes_loop sharp fn (path_join inputDir fn) szs t
         (emit (Log (SourceLine fn (size_text (fsys w) (path_join inputDir fn)))) w)"
  by (simp add: file_body_def Let_def console_log_def getFileSize_eq)

lemma file_body_effect:
  "\<exists>t' w' evs. file_body sharp szs fn t w = Return t' w'
     \<and> trace w' = trace w @ evs
     \<and> invocations evs =
         (if existsSync (fsys w) (path_join inputDir fn) then map (pair_call fn) szs else [])
     \<and> fst t' = fst t + conversions evs
     \<and> snd t' = snd t + failures evs
     \<and> conversions evs + failures evs = length (invocations evs)"
proof (cases "existsSync (fsys w) (path_join inputDir fn)")
  case False
  then show ?thesis
    by (simp add: file_body_missing)
next
  case True
  let ?w0 = "emit (Log (SourceLine fn (size_text (fsys w) (path_join inputDir fn)))) w"
  obtain t1 w1 evs1 where
    l: "sizes_loop sharp fn (path_join inputDir fn) szs t ?w0 = Return t1 w1"
    and tr1: "trace w1 = trace ?w0 @ evs1"
    and inv1: "invocations evs1 = map (pair_call fn) szs"
    and c1: "fst t1 = fst t + conversions evs1"
    and f1: "snd t1 = snd t + failures evs1"
    and n1: "conversions evs1 + failures evs1 = length szs"
    using sizes_loop_effect [of sharp fn szs t ?w0] by blast
  let ?evs = "Log (SourceLine fn (size_text (fsys w) (path_join inputDir fn))) # evs1"
  have "file_body sharp szs fn t w = Return t1 w1"
    using True l by (simp add: file_body_present)
  moreover have "trace w1 = trace w @ ?evs"
    using tr1 by simp
  moreover have "invocations ?evs = map (pair_call fn) szs"
    using inv1 by simp
  moreover have "fst t1 = fst t + conversions ?evs" "snd t1 = snd t + failures ?evs"
    using c1 f1 by simp_all
  moreover have "conversions ?evs + failures ?evs = length (invocations ?evs)"
    using n1 inv1 by simp
  ultimately show ?thesis using True by (metis (no_types, lifting))
qed

lemma files_loop_effect:
  "\<exists>t' w' evs. files_loop sharp szs fls t w = Return t' w'
     \<and> trace w' = trace w @ evs
     \<and> fst t' = fst t + conversions evs
     \<and> snd t' = snd t + failures evs
     \<and> conversions evs + failures evs = length (invocations evs)"
proof (induction fls arbitrary: t w)
  case Nil
  show ?case by simp
next
  case (Cons fn rest)
  obtain t1 w1 evs1 where
    b: "file_body sharp szs fn t w = Return t1 w1"
    and tr1: "trace w1 = trace w @ evs1"
    and c1: "fst t1 = fst t + conversions evs1"
    and f1: "snd t1 = snd t + failures evs1"
    and n1: "conversions evs1 + failures evs1 = length (invocations evs1)"
    using file_body_effect [of sharp szs fn t w] by blast
  obtain t2 w2 evs2 where
    l: "files_loop sharp szs rest t1 w1 = Return t2 w2"
    and tr2: "trace w2 = trace w1 @ evs2"
    and c2: "fst t2 = fst t1 + conversions evs2"
    and f2: "snd t2 = snd t1 + failures evs2"
    and n2: "conversions evs2 + failures evs2 = length (invocations evs2)"
    using Cons.IH [of t1 w1] by blast
  have "files_loop sharp szs (fn # rest) t w = Return t2 w2"
    using b l by simp
  moreover have "trace w2 = trace w @ (evs1 @ evs2)"
    using tr1 tr2 by simp
  moreover have "fst t2 = fst t + conversions (evs1 @ evs2)"
    using c1 c2 by simp
  moreover have "snd t2 = snd t + failures (evs1 @ evs2)"
    using f1 f2 by simp
  moreover have "conversions (evs1 @ evs2) + failures (evs1 @ evs2)
                   = length (invocations (evs1 @ evs2))"
    using n1 n2 by simp
  ultimately show ?case by blast
qed

lemma tier_loop_effect:
  "\<exists>t' w' evs. tier_loop sharp banner tr t w = Return t' w'
     \<and> trace w' = trace w @ evs
     \<and> fst t' = fst t + conversions evs
     \<and> snd t' = snd t + failures evs
     \<and> conversions evs + failures evs = length (invocations evs)"
proof -
  let ?w0 = "emit (Log (TierBanner banner)) w"
  obtain t1 w1 evs1 where
    l: "files_loop sharp (sizes tr) (files tr) t ?w0 = Return t1 w1"
    and tr1: "trace w1 = trace ?w0 @ evs1"
    and c1: "fst t1 = fst t + conversions evs1"
    and f1: "snd t1 = snd t + failures evs1"
    and n1: "conversions evs1 + failures evs1 = length (invocations evs1)"
    using files_loop_effect [of sharp "sizes tr" "files tr" t ?w0] by blast
  let ?evs = "Log (TierBanner banner) # evs1"
  have "tier_loop sharp banner tr t w = Return t1 w1"
    using l by (simp add: tier_loop_def console_log_def)
  moreover have "trace w1 = trace w @ ?evs"
    using tr1 by simp
  moreover have "fst t1 = fst t + conversions ?evs" "snd t1 = snd t + failures ?evs"
    using c1 f1 by simp_all
  moreover have "conversions ?evs + failures ?evs = length (invocations ?evs)"
    using n1 by simp
  ultimately show ?thesis by blast
qed

lemma traverse_steps:
  "\<exists>t1 w1 t2 w2.
      tier_loop sharp ''large'' config_large (0, 0) (emit (Log Starting) w) = Return t1 w1
    \<and> tier_loop sharp ''product'' config_product t1 w1 = Return t2 w2
    \<and> traverse sharp w = tier_loop sharp ''review'' config_review t2 w2"
proof -
  obtain t1 w1 where
    l1: "tier_loop sharp ''large'' config_large (0, 0) (emit (Log Starting) w) = Return t1 w1"
    using tier_loop_effect [of sharp "''large''" config_large "(0, 0)" "emit (Log Starting) w"]
    by blast
  obtain t2 w2 where
    l2: "tier_loop sharp ''product'' config_product t1 w1 = Return t2 w2"
    using tier_loop_effect [of sharp "''product''" config_product t1 w1] by blast
  have "traverse sharp w = tier_loop sharp ''review'' config_review t2 w2"
    using l1 l2 by (simp add: traverse_def console_log_def)
  then show ?thesis using l1 l2 by blast
qed

lemma traverse_effect:
  "\<exists>t' w' evs. traverse sharp w = Return t' w'
     \<and> trace w' = trace w @ evs
     \<and> fst t' = conversions evs
     \<and> snd t' = failures evs
     \<and> conversions evs + failures evs = length (invocations evs)"
proof -
  let ?w0 = "emit (Log Starting) w"
  obtain t1 w1 evs1 where
    l1: "tier_loop sharp ''large'' config_large (0, 0) ?w0 = Return t1 w1"
    and tr1: "trace w1 = trace ?w0 @ evs1"
    and c1: "fst t1 = fst (0::nat, 0::nat) + conversions evs1"
    and f1: "snd t1 = snd (0::nat, 0::nat) + failures evs1"
    and n1: "conversions evs1 + failures evs1 = length (invocations evs1)"
    using tier_loop_effect [of sharp "''large''" config_large "(0, 0)" ?w0] by blast
  obtain t2 w2 evs2 where
    l2: "tier_loop sharp ''product'' config_product t1 w1 = Return t2 w2"
    and tr2: "trace w2 = trace w1 @ evs2"
    and c2: "fst t2 = fst t1 + conversions evs2"
    and f2: "snd t2 = snd t1 + failures evs2"
    and n2: "conversions evs2 + failures evs2 = length (invocations evs2)"
    using tier_loop_effect [of sharp "''product''" config_product t1 w1] by blast
  obtain t3 w3 evs3 where
    l3: "tier_loop sharp ''review'' config_review t2 w2 = Return t3 w3"
    and tr3: "trace w3 = trace w2 @ evs3"
    and c3: "fst t3 = fst t2 + conversions evs3"
    and f3: "snd t3 = snd t2 + failures evs3"
    and n3: "conversions evs3 + failures evs3 = length (invocations evs3)"
    using tier_loop_effect [of sharp "''review''" config_review t2 w2] by blast
  let ?evs = "Log Starting # evs1 @ evs2 @ evs3"
  have "traverse sharp w = Return t3 w3"
    using l1 l2 l3 by (simp add: traverse_def console_log_def)
  moreover have "trace w3 = trace w @ ?evs"
    using tr1 tr2 tr3 by simp
  moreover have "fst t3 = conversions ?evs" "snd t3 = failures ?evs"
    using c1 c2 c3 f1 f2 f3 by simp_all
  moreover have "conversions ?evs + failures ?evs = length (invocations ?evs)"
    using n1 n2 n3 by simp
  ultimately show ?thesis by blast
qed

lemma sum_sizes_ok:
  "list_all (\<lambda>n. existsSync (fsys w) (path_join inputDir n)) names \<Longrightarrow>
     sum_sizes names acc w = Return (acc + sum_list (map (entry_size (fsys w)) names)) w"
  by (induction names arbitrary: acc)
     (auto simp: statSync_def existsSync_def entry_size_def split: option.splits)

lemma sum_sizes_fail:
  "\<not> list_all (\<lambda>n. existsSync (fsys w) (path_join inputDir n)) names \<Longrightarrow>
     \<exists>e. sum_sizes names acc w = Throw e w"
  by (induction names arbitrary: acc)
     (auto simp: statSync_def existsSync_def split: option.splits)

lemma report_Return:
  "summary_ok (fsys w) \<Longrightarrow>
     report t w =
       Return Undefined
         (w\<lparr>trace := trace w @ summary_lines t @
                     [Log (TotalWebp (webp_total (fsys w))), Log (OriginalEstimate 153),
                      Log (Savings (savings (webp_total (fsys w))))]\<rparr>)"
  by (auto simp: report_def summary_ok_def webp_total_def summary_lines_def console_log_def
      emit_def readdirSync_def sum_sizes_ok split: option.splits)

lemma report_Throw:
  "\<not> summary_ok (fsys w) \<Longrightarrow>
     \<exists>e. report t w = Throw e (w\<lparr>trace := trace w @ summary_lines t\<rparr>)"
proof (cases "readdir (fsys w) inputDir")
  case None
  then show ?thesis
    by (simp add: report_def summary_lines_def console_log_def emit_def readdirSync_def)
next
  case (Some names)
  let ?w6 = "w\<lparr>trace := trace w @ summary_lines t\<rparr>"
  assume "\<not> summary_ok (fsys w)"
  with Some have "\<not> list_all (\<lambda>n. existsSync (fsys ?w6) (path_join inputDir n)) (filter (\<lambda>f. ends_with f ''.webp'') names)"
    by (simp add: summary_ok_def)
  then obtain e where "sum_sizes (filter (\<lambda>f. ends_with f ''.webp'') names) 0 ?w6 = Throw e ?w6"
    using sum_sizes_fail by blast
  with Some show ?thesis
    by (simp add: report_def summary_lines_def console_log_def emit_def readdirSync_def)
qed

lemma report_keeps_fs: "fsys (world_of (report t w)) = fsys w"
proof (cases "summary_ok (fsys w)")
  case True
  then show ?thesis by (simp add: report_Return)
next
  case False
  then obtain e where "report t w = Throw e (w\<lparr>trace := trace w @ summary_lines t\<rparr>)"
    using report_Throw by blast
  then show ?thesis by simp
qed

section \<open>What a codec that writes only its output leaves alone\<close>

lemma pair_call_paths [simp]:
  "call_input (pair_call fn sz) = src_path fn"
  "call_output (pair_call fn sz) = out_path fn sz"
  by (simp_all add: pair_call_def conversion_call_def)

lemma keeps_other_pathsD:
  "keeps_other_paths sharp \<Longrightarrow> p \<noteq> call_output call \<Longrightarrow>
     map_of (result_fs (sharp call fs)) p = map_of fs p"
  by (simp add: keeps_other_paths_def)

lemma size_body_frame:
  assumes "keeps_other_paths sharp" and "p \<noteq> out_path fn sz"
    and "size_body sharp fn (src_path fn) sz t w = Return t' w'"
  shows "map_of (fsys w') p = map_of (fsys w) p"
proof -
  have "fsys w' = result_fs (sharp (pair_call fn sz) (fsys w))"
    using size_body_effect [of sharp fn sz t w] assms(3) by auto
  then show ?thesis
    using keeps_other_pathsD [OF assms(1), of p "pair_call fn sz" "fsys w"] assms(2) by simp
qed

lemma sizes_loop_frame:
  "keeps_other_paths sharp \<Longrightarrow> \<forall>sz\<in>set szs. p \<noteq> out_path fn sz \<Longrightarrow>
     sizes_loop sharp fn (src_path fn) szs t w = Return t' w' \<Longrightarrow>
     map_of (fsys w') p = map_of (fsys w) p"
proof (induction szs arbitrary: t w)
  case Nil
  then show ?case by simp
next
  case (Cons sz rest)
  obtain t1 w1 where b: "size_body sharp fn (src_path fn) sz t w = Return t1 w1"
    using size_body_effect [of sharp fn sz t w] by blast
  have "map_of (fsys w1) p = map_of (fsys w) p"
    using size_body_frame [OF Cons.prems(1) _ b] Cons.prems(2) by simp
  moreover have "sizes_loop sharp fn (src_path fn) rest t1 w1 = Return t' w'"
    using Cons.prems(3) b by simp
  then have "map_of (fsys w') p = map_of (fsys w1) p"
    using Cons.IH [of t1 w1] Cons.prems(1,2) by simp
  ultimately show ?case by simp
qed

lemma file_body_frame:
  assumes "keeps_other_paths sharp" and "\<forall>sz\<in>set szs. p \<noteq> out_path fn sz"
    and "file_body sharp szs fn t w = Return t' w'"
  shows "map_of (fsys w') p = map_of (fsys w) p"
proof (cases "existsSync (fsys w) (src_path fn)")
  case False
  then show ?thesis using assms(3) by (auto simp: file_body_missing)
next
  case True
  then have "sizes_loop sharp fn (src_path fn) szs t
               (emit (Log (SourceLine fn (size_text (fsys w) (src_path fn)))) w) = Return t' w'"
    using assms(3) by (simp add: file_body_present)
  then show ?thesis
    using sizes_loop_frame [OF assms(1,2)] by fastforce
qed

lemma files_loop_frame:
  "keeps_other_paths sharp \<Longrightarrow> \<forall>fn\<in>set fls. \<forall>sz\<in>set szs. p \<noteq> out_path fn sz \<Longrightarrow>
     files_loop sharp szs fls t w = Return t' w' \<Longrightarrow>
     map_of (fsys w') p = map_of (fsys w) p"
proof (induction fls arbitrary: t w)
  case Nil
  then show ?case by simp
next
  case (Cons fn rest)
  obtain t1 w1 where b: "file_body sharp szs fn t w = Return t1 w1"
    using file_body_effect [of sharp szs fn t w] by blast
  have "map_of (fsys w1) p = map_of (fsys w) p"
    using file_body_frame [OF Cons.prems(1) _ b] Cons.prems(2) by simp
  moreover have "files_loop sharp szs rest t1 w1 = Return t' w'"
    using Cons.prems(3) b by simp
  then have "map_of (fsys w') p = map_of (fsys w1) p"
    using Cons.IH [of t1 w1] Cons.prems(1,2) by simp
  ultimately show ?case by simp
qed

lemma tier_loop_frame:
  assumes "keeps_other_paths sharp"
    and "\<forall>fn\<in>set (files tr). \<forall>sz\<in>set (sizes tr). p \<noteq> out_path fn sz"
    and "tier_loop sharp banner tr t w = Return t' w'"
  shows "map_of (fsys w') p = map_of (fsys w) p"
proof -
  have "files_loop sharp (sizes tr) (files tr) t (emit (Log (TierBanner banner)) w) = Return t' w'"
    using assms(3) by (simp add: tier_loop_def console_log_def)
  then show ?thesis
    using files_loop_frame [OF assms(1,2)] by fastforce
qed

lemma sizes_loop_written:
  "keeps_other_paths sharp \<Longrightarrow> writes_output sharp \<Longrightarrow> distinct (map (out_path fn) szs) \<Longrightarrow>
   sizes_loop sharp fn (src_path fn) szs t w = Return t' w' \<Longrightarrow> snd t' = snd t \<Longrightarrow>
   \<forall>sz\<in>set szs. \<exists>b. map_of (fsys w') (out_path fn sz) = Some (File b)"
proof (induction szs arbitrary: t w)
  case Nil
  then show ?case by simp
next
  case (Cons sz rest)
  obtain t1 w1 evs1 where
    b: "size_body sharp fn (src_path fn) sz t w = Return t1 w1"
    and f1: "snd t1 = snd t + failures evs1"
    using size_body_effect [of sharp fn sz t w] by blast
  have l: "sizes_loop sharp fn (src_path fn) rest t1 w1 = Return t' w'"
    using Cons.prems(4) b by simp
  have "snd t1 \<le> snd t'"
    using l by (rule sizes_loop_failed_mono)
  then have e1: "snd t1 = snd t" and e2: "snd t' = snd t1"
    using f1 Cons.prems(5) by simp_all
  have "sharp (pair_call fn sz) (fsys w) = Written (fsys w1)"
    using b e1 by (rule size_body_no_failure)
  then obtain b0 where "map_of (fsys w1) (out_path fn sz) = Some (File b0)"
    using Cons.prems(2) unfolding writes_output_def by fastforce
  moreover have "\<forall>s\<in>set rest. out_path fn sz \<noteq> out_path fn s"
    using Cons.prems(3) by auto
  then have "map_of (fsys w') (out_path fn sz) = map_of (fsys w1) (out_path fn sz)"
    using sizes_loop_frame [OF Cons.prems(1) _ l] by blast
  ultimately have h: "\<exists>b. map_of (fsys w') (out_path fn sz) = Some (File b)"
    by simp
  have "\<forall>s\<in>set rest. \<exists>b. map_of (fsys w') (out_path fn s) = Some (File b)"
    using Cons.IH [OF Cons.prems(1,2) _ l e2] Cons.prems(3) by simp
  with h show ?case by simp
qed

lemma attempted_append [simp]:
  "attempted fs (xs @ ys) = attempted fs xs @ attempted fs ys"
  by (simp add: attempted_def)

lemma attempted_one_file [simp]:
  "attempted fs (map (Pair fn) szs) =
     (if existsSync fs (src_path fn) then map (Pair fn) szs else [])"
  by (simp add: attempted_def filter_map comp_def)

lemma attempted_same:
  "\<forall>(fn, sz)\<in>set pairs. map_of fs (src_path fn) = map_of fs' (src_path fn) \<Longrightarrow>
     attempted fs pairs = attempted fs' pairs"
  unfolding attempted_def
  by (rule filter_cong) (auto dest: existsSync_same)

lemma files_loop_calls:
  "keeps_other_paths sharp \<Longrightarrow>
   \<forall>f\<in>set fls. \<forall>g\<in>set fls. \<forall>sz\<in>set szs. src_path g \<noteq> out_path f sz \<Longrightarrow>
   files_loop sharp szs fls t w = Return t' w' \<Longrightarrow>
   invocations (trace w') =
     invocations (trace w) @
     map (\<lambda>(fn, sz). pair_call fn sz) (attempted (fsys w) (List.product fls szs))"
proof (induction fls arbitrary: t w)
  case Nil
  then show ?case by (simp add: attempted_def)
next
  case (Cons fn rest)
  obtain t1 w1 evs1 where
    b: "file_body sharp szs fn t w = Return t1 w1"
    and tr1: "trace w1 = trace w @ evs1"
    and inv1: "invocations evs1 =
         (if existsSync (fsys w) (src_path fn) then map (pair_call fn) szs else [])"
    using file_body_effect [of sharp szs fn t w] by blast
  have l: "files_loop sharp szs rest t1 w1 = Return t' w'"
    using Cons.prems(3) b by simp
  have same: "\<forall>(g, sz)\<in>set (List.product rest szs). map_of (fsys w1) (src_path g) = map_of (fsys w) (src_path g)"
  proof clarify
    fix g sz assume "(g, sz) \<in> set (List.product rest szs)"
    then have "g \<in> set rest" by simp
    then have "\<forall>sz\<in>set szs. src_path g \<noteq> out_path fn sz"
      using Cons.prems(2) by simp
    then show "map_of (fsys w1) (src_path g) = map_of (fsys w) (src_path g)"
      using file_body_frame [OF Cons.prems(1) _ b] by blast
  qed
  have "invocations (trace w') =
          invocations (trace w1) @
          map (\<lambda>(fn, sz). pair_call fn sz) (attempted (fsys w1) (List.product rest szs))"
    using Cons.IH [OF Cons.prems(1) _ l] Cons.prems(2) by simp
  also have "attempted (fsys w1) (List.product rest szs) = attempted (fsys w) (List.product rest szs)"
    by (rule attempted_same [OF same])
  finally show ?case
    using tr1 inv1 by (simp add: comp_def)
qed

lemma files_loop_notices:
  "keeps_other_paths sharp \<Longrightarrow>
   \<forall>f\<in>set fls. \<forall>g\<in>set fls. \<forall>sz\<in>set szs. src_path g \<noteq> out_path f sz \<Longrightarrow>
   files_loop sharp szs fls t w = Return t' w' \<Longrightarrow>
   \<exists>evs. trace w' = trace w @ evs
     \<and> (\<forall>f\<in>set fls. \<not> existsSync (fsys w) (src_path f) \<longrightarrow> Log (NotFound f) \<in> set evs)"
proof (induction fls arbitrary: t w)
  case Nil
  then show ?case by simp
next
  case (Cons fn rest)
  obtain t1 w1 evs1 where
    b: "file_body sharp szs fn t w = Return t1 w1"
    and tr1: "trace w1 = trace w @ evs1"
    using file_body_effect [of sharp szs fn t w] by blast
  have l: "files_loop sharp szs rest t1 w1 = Return t' w'"
    using Cons.prems(3) b by simp
  obtain evs2 where
    tr2: "trace w' = trace w1 @ evs2"
    and n2: "\<forall>f\<in>set rest. \<not> existsSync (fsys w1) (src_path f) \<longrightarrow> Log (NotFound f) \<in> set evs2"
    using Cons.IH [OF Cons.prems(1) _ l] Cons.prems(2) by auto
  have head: "\<not> existsSync (fsys w) (src_path fn) \<longrightarrow> Log (NotFound fn) \<in> set evs1"
  proof
    assume "\<not> existsSync (fsys w) (src_path fn)"
    then have "Return t1 w1 = Return t (emit (Log (NotFound fn)) w)"
      using b by (simp add: file_body_missing)
    then show "Log (NotFound fn) \<in> set evs1"
      using tr1 by auto
  qed
  have tail: "\<forall>f\<in>set rest. \<not> existsSync (fsys w) (src_path f) \<longrightarrow> Log (NotFound f) \<in> set evs2"
  proof (intro ballI impI)
    fix g assume g: "g \<in> set rest" and m: "\<not> existsSync (fsys w) (src_path g)"
    have "\<forall>sz\<in>set szs. src_path g \<noteq> out_path fn sz"
      using Cons.prems(2) g by simp
    then have "map_of (fsys w1) (src_path g) = map_of (fsys w) (src_path g)"
      using file_body_frame [OF Cons.prems(1) _ b] by blast
    then have "\<not> existsSync (fsys w1) (src_path g)"
      using m existsSync_same by blast
    then show "Log (NotFound g) \<in> set evs2"
      using n2 g by blast
  qed
  have "trace w' = trace w @ (evs1 @ evs2)"
    using tr1 tr2 by simp
  moreover have "\<forall>f\<in>set (fn # rest). \<not> existsSync (fsys w) (src_path f) \<longrightarrow>
                   Log (NotFound f) \<in> set (evs1 @ evs2)"
    using head tail by simp
  ultimately show ?case by blast
qed

section \<open>The paths of the configuration\<close>

lemma config_output_names:
  "map (\<lambda>(fn, sz). outputName_of fn sz) config_pairs = all_output_names"
  by (simp add: config_pairs_def tier_pairs_def tiers_def config_large_def config_product_def
      config_review_def outputName_of_def starts_with_def all_output_names_def)

lemma output_paths_of_names: "map (path_join inputDir) all_output_names = all_output_paths"
  by (simp add: all_output_names_def all_output_paths_def path_join_def inputDir_def
      path_normalize_def)

lemma config_output_paths:
  "map (\<lambda>(fn, sz). out_path fn sz) config_pairs = all_output_paths"
proof -
  have "map (\<lambda>(fn, sz). out_path fn sz) config_pairs =
          map (path_join inputDir) (map (\<lambda>(fn, sz). outputName_of fn sz) config_pairs)"
    by (simp add: case_prod_unfold comp_def)
  then show ?thesis
    by (simp only: config_output_names output_paths_of_names)
qed

lemma config_source_paths:
  "map src_path (concat (map files tiers)) = all_source_paths"
  by (simp add: tiers_def config_large_def config_product_def config_review_def
      all_source_paths_def path_join_def inputDir_def path_normalize_def)

lemma outputs_distinct: "distinct all_output_paths"
  by (simp add: all_output_paths_def)

lemma sources_not_outputs: "set all_source_paths \<inter> set all_output_paths = {}"
  by (simp add: all_source_paths_def all_output_paths_def)

lemma large_outputs_004:
  "map (out_path ''004.png'') (sizes config_large) = outputs_004"
  by (simp add: config_large_def outputs_004_def outputName_of_def starts_with_def
      path_join_def inputDir_def path_normalize_def)

lemma config_names_as_specified:
  "map (\<lambda>(fn, sz). spec_output_name fn sz) config_pairs = all_output_names"
  by (simp add: config_pairs_def tier_pairs_def tiers_def config_large_def config_product_def
      config_review_def spec_output_name_def strip_ext_def ends_with_def all_output_names_def)

lemma pair_in_config:
  "tr \<in> set tiers \<Longrightarrow> fn \<in> set (files tr) \<Longrightarrow> sz \<in> set (sizes tr) \<Longrightarrow>
     (fn, sz) \<in> set config_pairs"
  by (auto simp: config_pairs_def tier_pairs_def)

lemma config_pairD:
  assumes "(fn, sz) \<in> set config_pairs"
  shows "\<exists>tr\<in>set tiers. fn \<in> set (files tr) \<and> sz \<in> set (sizes tr)"
  using assms by (auto simp: config_pairs_def tier_pairs_def)

lemma out_path_listed:
  assumes "tr \<in> set tiers" and "fn \<in> set (files tr)" and "sz \<in> set (sizes tr)"
  shows "out_path fn sz \<in> set all_output_paths"
proof -
  have "(fn, sz) \<in> set config_pairs"
    using assms by (rule pair_in_config)
  then have "(\<lambda>(fn, sz). out_path fn sz) (fn, sz) \<in> set (map (\<lambda>(fn, sz). out_path fn sz) config_pairs)"
    unfolding set_map by (rule imageI)
  then show ?thesis
    by (simp add: config_output_paths)
qed

lemma src_path_listed:
  assumes "tr \<in> set tiers" and "g \<in> set (files tr)"
  shows "src_path g \<in> set all_source_paths"
proof -
  have "g \<in> set (concat (map files tiers))"
    using assms by auto
  then have "src_path g \<in> set (map src_path (concat (map files tiers)))"
    unfolding set_map by (rule imageI)
  then show ?thesis
    by (simp only: config_source_paths)
qed

lemma config_pair_paths:
  assumes "(fn, sz) \<in> set config_pairs"
  shows "src_path fn \<in> set all_source_paths" and "out_path fn sz \<in> set all_output_paths"
proof -
  obtain tr where "tr \<in> set tiers" "fn \<in> set (files tr)" "sz \<in> set (sizes tr)"
    using config_pairD [OF assms] by blast
  then show "src_path fn \<in> set all_source_paths" and "out_path fn sz \<in> set all_output_paths"
    using src_path_listed out_path_listed by blast+
qed

lemma config_src_out:
  assumes "tr \<in> set tiers" and "fn \<in> set (files tr)" and "sz \<in> set (sizes tr)"
    and "tr' \<in> set tiers" and "g \<in> set (files tr')"
  shows "src_path g \<noteq> out_path fn sz"
  using out_path_listed [OF assms(1,2,3)] src_path_listed [OF assms(4,5)] sources_not_outputs
  by auto

section \<open>The codec invocations and the notices of a whole traversal\<close>

lemma tier_loop_calls:
  assumes "keeps_other_paths sharp" and "tr \<in> set tiers"
    and "tier_loop sharp banner tr t w = Return t' w'"
  shows "invocations (trace w') =
           invocations (trace w) @
           map (\<lambda>(fn, sz). pair_call fn sz) (attempted (fsys w) (tier_pairs tr))"
proof -
  have l: "files_loop sharp (sizes tr) (files tr) t (emit (Log (TierBanner banner)) w) = Return t' w'"
    using assms(3) by (simp add: tier_loop_def console_log_def)
  have "\<forall>f\<in>set (files tr). \<forall>g\<in>set (files tr). \<forall>sz\<in>set (sizes tr). src_path g \<noteq> out_path f sz"
    using config_src_out [OF assms(2) _ _ assms(2)] by blast
  then show ?thesis
    using files_loop_calls [OF assms(1) _ l] by (simp add: tier_pairs_def)
qed

lemma tier_loop_attempted:
  assumes "keeps_other_paths sharp" and "tr \<in> set tiers" and "tr' \<in> set tiers"
    and "tier_loop sharp banner tr t w = Return t' w'"
  shows "attempted (fsys w') (tier_pairs tr') = attempted (fsys w) (tier_pairs tr')"
proof (rule attempted_same, clarify)
  fix g sz assume "(g, sz) \<in> set (tier_pairs tr')"
  then have g: "g \<in> set (files tr')"
    by (simp add: tier_pairs_def)
  have "\<forall>fn\<in>set (files tr). \<forall>sz\<in>set (sizes tr). src_path g \<noteq> out_path fn sz"
    using config_src_out [OF assms(2) _ _ assms(3) g] by blast
  then show "map_of (fsys w') (src_path g) = map_of (fsys w) (src_path g)"
    using tier_loop_frame [OF assms(1) _ assms(4)] by blast
qed

lemma tier_loop_sources:
  assumes "keeps_other_paths sharp" and "tr \<in> set tiers"
    and "tier_loop sharp banner tr t w = Return t' w'"
    and "p \<in> set all_source_paths"
  shows "map_of (fsys w') p = map_of (fsys w) p"
proof -
  have "\<forall>fn\<in>set (files tr). \<forall>sz\<in>set (sizes tr). p \<noteq> out_path fn sz"
  proof (intro ballI notI)
    fix fn sz assume "fn \<in> set (files tr)" "sz \<in> set (sizes tr)" "p = out_path fn sz"
    then have "p \<in> set all_source_paths \<inter> set all_output_paths"
      using out_path_listed [OF assms(2)] assms(4) by simp
    then show False
      by (simp only: sources_not_outputs empty_iff)
  qed
  then show ?thesis
    using tier_loop_frame [OF assms(1) _ assms(3)] by blast
qed

lemma tier_loop_exists_same:
  assumes "keeps_other_paths sharp" and "tr \<in> set tiers"
    and "tier_loop sharp banner tr t w = Return t' w'"
    and "p \<in> set all_source_paths"
  shows "existsSync (fsys w') p = existsSync (fsys w) p"
  using tier_loop_sources [OF assms] by (rule existsSync_same)

lemma tier_loop_notices:
  assumes "keeps_other_paths sharp" and "tr \<in> set tiers"
    and "tier_loop sharp banner tr t w = Return t' w'"
  shows "\<exists>evs. trace w' = trace w @ evs
     \<and> (\<forall>f\<in>set (files tr). \<not> existsSync (fsys w) (src_path f) \<longrightarrow> Log (NotFound f) \<in> set evs)"
proof -
  let ?ev = "Log (TierBanner banner)"
  have l: "files_loop sharp (sizes tr) (files tr) t (emit ?ev w) = Return t' w'"
    using assms(3) by (simp add: tier_loop_def console_log_def)
  have d: "\<forall>f\<in>set (files tr). \<forall>g\<in>set (files tr). \<forall>sz\<in>set (sizes tr). src_path g \<noteq> out_path f sz"
    using config_src_out [OF assms(2) _ _ assms(2)] by blast
  obtain evs where
    tr: "trace w' = trace (emit ?ev w) @ evs"
    and n: "\<forall>f\<in>set (files tr). \<not> existsSync (fsys (emit ?ev w)) (src_path f) \<longrightarrow>
              Log (NotFound f) \<in> set evs"
    using files_loop_notices [OF assms(1) d l] by blast
  have "trace w' = trace w @ (?ev # evs)"
    using tr by simp
  moreover have "\<forall>f\<in>set (files tr). \<not> existsSync (fsys w) (src_path f) \<longrightarrow>
                   Log (NotFound f) \<in> set (?ev # evs)"
    using n by simp
  ultimately show ?thesis by blast
qed

lemma traverse_calls:
  assumes "keeps_other_paths sharp" and "traverse sharp w = Return t w'"
  shows "invocations (trace w') =
           invocations (trace w) @
           map (\<lambda>(fn, sz). pair_call fn sz) (attempted (fsys w) config_pairs)"
proof -
  let ?w0 = "emit (Log Starting) w"
  obtain t1 w1 t2 w2 where
    l1: "tier_loop sharp ''large'' config_large (0, 0) ?w0 = Return t1 w1"
    and l2: "tier_loop sharp ''product'' config_product t1 w1 = Return t2 w2"
    and l3: "traverse sharp w = tier_loop sharp ''review'' config_review t2 w2"
    using traverse_steps [of sharp w] by blast
  have m: "config_large \<in> set tiers" "config_product \<in> set tiers" "config_review \<in> set tiers"
    by (simp_all add: tiers_def)
  have l3': "tier_loop sharp ''review'' config_review t2 w2 = Return t w'"
    using l3 assms(2) by simp
  have a2: "attempted (fsys w1) (tier_pairs config_product) = attempted (fsys w) (tier_pairs config_product)"
    using tier_loop_attempted [OF assms(1) m(1) m(2) l1] by simp
  have a3: "attempted (fsys w2) (tier_pairs config_review) = attempted (fsys w) (tier_pairs config_review)"
    using tier_loop_attempted [OF assms(1) m(2) m(3) l2]
      tier_loop_attempted [OF assms(1) m(1) m(3) l1] by simp
  have "invocations (trace w') =
          invocations (trace w) @
          map (\<lambda>(fn, sz). pair_call fn sz) (attempted (fsys w) (tier_pairs config_large)) @
          map (\<lambda>(fn, sz). pair_call fn sz) (attempted (fsys w) (tier_pairs config_product)) @
          map (\<lambda>(fn, sz). pair_call fn sz) (attempted (fsys w) (tier_pairs config_review))"
    using tier_loop_calls [OF assms(1) m(1) l1] tier_loop_calls [OF assms(1) m(2) l2]
      tier_loop_calls [OF assms(1) m(3) l3'] a2 a3
    by simp
  then show ?thesis
    by (simp add: config_pairs_def tiers_def)
qed

lemma traverse_notices:
  assumes "keeps_other_paths sharp" and "traverse sharp w = Return t w'"
    and "tr \<in> set tiers" and "fn \<in> set (files tr)"
    and "\<not> existsSync (fsys w) (src_path fn)"
  shows "\<exists>evs. trace w' = trace w @ evs \<and> Log (NotFound fn) \<in> set evs"
proof -
  let ?w0 = "emit (Log Starting) w"
  obtain t1 w1 t2 w2 where
    l1: "tier_loop sharp ''large'' config_large (0, 0) ?w0 = Return t1 w1"
    and l2: "tier_loop sharp ''product'' config_product t1 w1 = Return t2 w2"
    and l3: "traverse sharp w = tier_loop sharp ''review'' config_review t2 w2"
    using traverse_steps [of sharp w] by blast
  have m: "config_large \<in> set tiers" "config_product \<in> set tiers" "config_review \<in> set tiers"
    by (simp_all add: tiers_def)
  have l3': "tier_loop sharp ''review'' config_review t2 w2 = Return t w'"
    using l3 assms(2) by simp
  have s: "src_path fn \<in> set all_source_paths"
    using assms(3,4) by (rule src_path_listed)
  have e0: "\<not> existsSync (fsys ?w0) (src_path fn)"
    using assms(5) by simp
  have e1: "\<not> existsSync (fsys w1) (src_path fn)"
    using tier_loop_exists_same [OF assms(1) m(1) l1 s] e0 by simp
  have e2: "\<not> existsSync (fsys w2) (src_path fn)"
    using tier_loop_exists_same [OF assms(1) m(2) l2 s] e1 by simp
  obtain evs1 where tr1: "trace w1 = trace ?w0 @ evs1"
    and n1: "\<forall>f\<in>set (files config_large). \<not> existsSync (fsys ?w0) (src_path f) \<longrightarrow>
               Log (NotFound f) \<in> set evs1"
    using tier_loop_notices [OF assms(1) m(1) l1] by blast
  obtain evs2 where tr2: "trace w2 = trace w1 @ evs2"
    and n2: "\<forall>f\<in>set (files config_product). \<not> existsSync (fsys w1) (src_path f) \<longrightarrow>
               Log (NotFound f) \<in> set evs2"
    using tier_loop_notices [OF assms(1) m(2) l2] by blast
  obtain evs3 where tr3: "trace w' = trace w2 @ evs3"
    and n3: "\<forall>f\<in>set (files config_review). \<not> existsSync (fsys w2) (src_path f) \<longrightarrow>
               Log (NotFound f) \<in> set evs3"
    using tier_loop_notices [OF assms(1) m(3) l3'] by blast
  have tr: "trace w' = trace w @ (Log Starting # evs1 @ evs2 @ evs3)"
    using tr1 tr2 tr3 by simp
  have "tr = config_large \<or> tr = config_product \<or> tr = config_review"
    using assms(3) by (simp add: tiers_def)
  then have "Log (NotFound fn) \<in> set (Log Starting # evs1 @ evs2 @ evs3)"
    using assms(4) e0 e1 e2 n1 n2 n3 by auto
  then show ?thesis using tr by blast
qed

section \<open>Replaying the codec invocations\<close>

lemma replay_Nil [simp]: "replay sharp fs [] = fs"
  by (simp add: replay_def)

lemma replay_Cons [simp]:
  "replay sharp fs (call # calls) = replay sharp (result_fs (sharp call fs)) calls"
  by (simp add: replay_def)

lemma replay_append [simp]:
  "replay sharp fs (xs @ ys) = replay sharp (replay sharp fs xs) ys"
  by (simp add: replay_def)

text \<open>Only the codec changes the filesystem: after a loop, the filesystem is what the
  invocations of the loop, replayed in order, make of the filesystem before it.\<close>

lemma sizes_loop_replay:
  "\<exists>t' w' evs. sizes_loop sharp fn (src_path fn) szs t w = Return t' w'
     \<and> trace w' = trace w @ evs
     \<and> fsys w' = replay sharp (fsys w) (invocations evs)"
proof (induction szs arbitrary: t w)
  case Nil
  show ?case by simp
next
  case (Cons sz rest)
  obtain t1 w1 evs1 where
    b: "size_body sharp fn (src_path fn) sz t w = Return t1 w1"
    and tr1: "trace w1 = trace w @ evs1"
    and fs1: "fsys w1 = result_fs (sharp (pair_call fn sz) (fsys w))"
    and inv1: "invocations evs1 = [pair_call fn sz]"
    using size_body_effect [of sharp fn sz t w] by blast
  obtain t2 w2 evs2 where
    l: "sizes_loop sharp fn (src_path fn) rest t1 w1 = Return t2 w2"
    and tr2: "trace w2 = trace w1 @ evs2"
    and fs2: "fsys w2 = replay sharp (fsys w1) (invocations evs2)"
    using Cons.IH [of t1 w1] by blast
  have "sizes_loop sharp fn (src_path fn) (sz # rest) t w = Return t2 w2"
    using b l by simp
  moreover have "trace w2 = trace w @ (evs1 @ evs2)"
    using tr1 tr2 by simp
  moreover have "fsys w2 = replay sharp (fsys w) (invocations (evs1 @ evs2))"
    using fs1 fs2 inv1 by simp
  ultimately show ?case by blast
qed

lemma file_body_replay:
  "\<exists>t' w' evs. file_body sharp szs fn t w = Return t' w'
     \<and> trace w' = trace w @ evs
     \<and> fsys w' = replay sharp (fsys w) (invocations evs)"
proof (cases "existsSync (fsys w) (src_path fn)")
  case False
  have "file_body sharp szs fn t w = Return t (emit (Log (NotFound fn)) w)"
    using False by (rule file_body_missing)
  moreover have "trace (emit (Log (NotFound fn)) w) = trace w @ [Log (NotFound fn)]"
    by simp
  moreover have "fsys (emit (Log (NotFound fn)) w) =
                   replay sharp (fsys w) (invocations [Log (NotFound fn)])"
    by simp
  ultimately show ?thesis by blast
next
  case True
  let ?ev = "Log (SourceLine fn (size_text (fsys w) (src_path fn)))"
  obtain t1 w1 evs1 where
    l: "sizes_loop sharp fn (src_path fn) szs t (emit ?ev w) = Return t1 w1"
    and tr1: "trace w1 = trace (emit ?ev w) @ evs1"
    and fs1: "fsys w1 = replay sharp (fsys (emit ?ev w)) (invocations evs1)"
    using sizes_loop_replay [of sharp fn szs t "emit ?ev w"] by blast
  have "file_body sharp szs fn t w = Return t1 w1"
    using True l by (simp add: file_body_present)
  moreover have "trace w1 = trace w @ (?ev # evs1)"
    using tr1 by simp
  moreover have "fsys w1 = replay sharp (fsys w) (invocations (?ev # evs1))"
    using fs1 by simp
  ultimately show ?thesis by blast
qed

lemma files_loop_replay:
  "\<exists>t' w' evs. files_loop sharp szs fls t w = Return t' w'
     \<and> trace w' = trace w @ evs
     \<and> fsys w' = replay sharp (fsys w) (invocations evs)"
proof (induction fls arbitrary: t w)
  case Nil
  show ?case by simp
next
  case (Cons fn rest)
  obtain t1 w1 evs1 where
    b: "file_body sharp szs fn t w = Return t1 w1"
    and tr1: "trace w1 = trace w @ evs1"
    and fs1: "fsys w1 = replay sharp (fsys w) (invocations evs1)"
    using file_body_replay [of sharp szs fn t w] by blast
  obtain t2 w2 evs2 where
    l: "files_loop sharp szs rest t1 w1 = Return t2 w2"
    and tr2: "trace w2 = trace w1 @ evs2"
    and fs2: "fsys w2 = replay sharp (fsys w1) (invocations evs2)"
    using Cons.IH [of t1 w1] by blast
  have "files_loop sharp szs (fn # rest) t w = Return t2 w2"
    using b l by simp
  moreover have "trace w2 = trace w @ (evs1 @ evs2)"
    using tr1 tr2 by simp
  moreover have "fsys w2 = replay sharp (fsys w) (invocations (evs1 @ evs2))"
    using fs1 fs2 by simp
  ultimately show ?case by blast
qed

lemma tier_loop_replay:
  "\<exists>t' w' evs. tier_loop sharp banner tr t w = Return t' w'
     \<and> trace w' = trace w @ evs
     \<and> fsys w' = replay sharp (fsys w) (invocations evs)"
proof -
  let ?ev = "Log (TierBanner banner)"
  obtain t1 w1 evs1 where
    l: "files_loop sharp (sizes tr) (files tr) t (emit ?ev w) = Return t1 w1"
    and tr1: "trace w1 = trace (emit ?ev w) @ evs1"
    and fs1: "fsys w1 = replay sharp (fsys (emit ?ev w)) (invocations evs1)"
    using files_loop_replay [of sharp "sizes tr" "files tr" t "emit ?ev w"] by blast
  have "tier_loop sharp banner tr t w = Return t1 w1"
    using l by (simp add: tier_loop_def console_log_def)
  moreover have "trace w1 = trace w @ (?ev # evs1)"
    using tr1 by simp
  moreover have "fsys w1 = replay sharp (fsys w) (invocations (?ev # evs1))"
    using fs1 by simp
  ultimately show ?thesis by blast
qed

lemma traverse_replay:
  "\<exists>t' w' evs. traverse sharp w = Return t' w'
     \<and> trace w' = trace w @ evs
     \<and> fsys w' = replay sharp (fsys w) (invocations evs)"
proof -
  let ?w0 = "emit (Log Starting) w"
  obtain t1 w1 evs1 where
    l1: "tier_loop sharp ''large'' config_large (0, 0) ?w0 = Return t1 w1"
    and tr1: "trace w1 = trace ?w0 @ evs1"
    and fs1: "fsys w1 = replay sharp (fsys ?w0) (invocations evs1)"
    using tier_loop_replay [of sharp "''large''" config_large "(0, 0)" ?w0] by blast
  obtain t2 w2 evs2 where
    l2: "tier_loop sharp ''product'' config_product t1 w1 = Return t2 w2"
    and tr2: "trace w2 = trace w1 @ evs2"
    and fs2: "fsys w2 = replay sharp (fsys w1) (invocations evs2)"
    using tier_loop_replay [of sharp "''product''" config_product t1 w1] by blast
  obtain t3 w3 evs3 where
    l3: "tier_loop sharp ''review'' config_review t2 w2 = Return t3 w3"
    and tr3: "trace w3 = trace w2 @ evs3"
    and fs3: "fsys w3 = replay sharp (fsys w2) (invocations evs3)"
    using tier_loop_replay [of sharp "''review''" config_review t2 w2] by blast
  have "traverse sharp w = Return t3 w3"
    using l1 l2 l3 by (simp add: traverse_def console_log_def)
  moreover have "trace w3 = trace w @ (Log Starting # evs1 @ evs2 @ evs3)"
    using tr1 tr2 tr3 by simp
  moreover have "fsys w3 = replay sharp (fsys w) (invocations (Log Starting # evs1 @ evs2 @ evs3))"
    using fs1 fs2 fs3 by simp
  ultimately show ?thesis by blast
qed

lemma traverse_final_fs:
  assumes "keeps_other_paths sharp" and "traverse sharp w = Return t w'"
  shows "fsys w' =
           replay sharp (fsys w)
             (map (\<lambda>(fn, sz). pair_call fn sz) (attempted (fsys w) config_pairs))"
proof -
  obtain evs where tr: "trace w' = trace w @ evs"
    and fs: "fsys w' = replay sharp (fsys w) (invocations evs)"
    using traverse_replay [of sharp w] assms(2) by auto
  have "invocations evs = map (\<lambda>(fn, sz). pair_call fn sz) (attempted (fsys w) config_pairs)"
    using traverse_calls [OF assms] tr by simp
  then show ?thesis using fs by simp
qed

lemma replay_frame:
  "keeps_other_paths sharp \<Longrightarrow> p \<notin> call_output ` set calls \<Longrightarrow>
     map_of (replay sharp fs calls) p = map_of fs p"
proof (induction calls arbitrary: fs)
  case Nil
  show ?case by simp
next
  case (Cons call rest)
  have "map_of (replay sharp (result_fs (sharp call fs)) rest) p =
          map_of (result_fs (sharp call fs)) p"
    using Cons.IH [OF Cons.prems(1)] Cons.prems(2) by simp
  also have "\<dots> = map_of fs p"
    using keeps_other_pathsD [OF Cons.prems(1), of p call fs] Cons.prems(2) by simp
  finally show ?case by simp
qed

lemma planned_calls_outputs:
  "map call_output (planned_calls fs) =
     map (\<lambda>(fn, sz). out_path fn sz) (attempted fs config_pairs)"
  by (simp add: planned_calls_def case_prod_unfold comp_def)

lemma planned_calls_distinct: "distinct (map call_output (planned_calls fs))"
proof -
  have "distinct (map (\<lambda>(fn, sz). out_path fn sz) config_pairs)"
    by (simp only: config_output_paths outputs_distinct)
  then have "distinct (map (\<lambda>(fn, sz). out_path fn sz) (attempted fs config_pairs))"
    unfolding attempted_def by (rule distinct_map_filter)
  then show ?thesis
    by (simp only: planned_calls_outputs)
qed

lemma planned_calls_paths:
  assumes "c \<in> set (planned_calls fs)"
  shows "call_input c \<in> set all_source_paths" and "call_output c \<in> set all_output_paths"
proof -
  obtain fn sz where m: "(fn, sz) \<in> set config_pairs" and c: "c = pair_call fn sz"
    using assms by (auto simp: planned_calls_def attempted_def)
  show "call_input c \<in> set all_source_paths" and "call_output c \<in> set all_output_paths"
    using config_pair_paths [OF m] c by simp_all
qed

lemma planned_calls_inputs_apart:
  "\<forall>c\<in>set (planned_calls fs). call_input c \<notin> call_output ` set (planned_calls fs)"
proof
  fix c assume "c \<in> set (planned_calls fs)"
  then have i: "call_input c \<in> set all_source_paths"
    by (rule planned_calls_paths(1))
  show "call_input c \<notin> call_output ` set (planned_calls fs)"
  proof
    assume "call_input c \<in> call_output ` set (planned_calls fs)"
    then obtain c' where "c' \<in> set (planned_calls fs)" and e: "call_input c = call_output c'"
      by (rule imageE)
    then have "call_output c' \<in> set all_output_paths"
      using planned_calls_paths(2) by simp
    then have "call_input c \<in> set all_source_paths \<inter> set all_output_paths"
      using i e by simp
    then show False
      by (simp only: sources_not_outputs empty_iff)
  qed
qed

lemma source_after_replay:
  assumes "keeps_other_paths sharp" and "p \<in> set all_source_paths"
  shows "map_of (replay sharp fs (planned_calls fs0)) p = map_of fs p"
proof -
  have "p \<notin> call_output ` set (planned_calls fs0)"
  proof
    assume "p \<in> call_output ` set (planned_calls fs0)"
    then obtain c where "c \<in> set (planned_calls fs0)" and e: "p = call_output c"
      by (rule imageE)
    then have "call_output c \<in> set all_output_paths"
      using planned_calls_paths(2) by simp
    then have "p \<in> set all_source_paths \<inter> set all_output_paths"
      using assms(2) e by simp
    then show False
      by (simp only: sources_not_outputs empty_iff)
  qed
  then show ?thesis
    using replay_frame [OF assms(1)] by blast
qed

lemma missing_source_no_call:
  assumes "\<not> existsSync fs (src_path fn)" and "c \<in> set (planned_calls fs)"
  shows "call_input c \<noteq> src_path fn"
proof -
  obtain g sz where "existsSync fs (src_path g)" and "c = pair_call g sz"
    using assms(2) by (auto simp: planned_calls_def attempted_def)
  then show ?thesis using assms(1) by auto
qed

lemma missing_source_no_output:
  assumes "\<not> existsSync fs (src_path fn)" and "(fn, sz) \<in> set config_pairs"
  shows "out_path fn sz \<notin> call_output ` set (planned_calls fs)"
proof
  assume "out_path fn sz \<in> call_output ` set (planned_calls fs)"
  then obtain c where c: "c \<in> set (planned_calls fs)" and e: "out_path fn sz = call_output c"
    by (rule imageE)
  obtain g s' where m: "(g, s') \<in> set config_pairs" and ex: "existsSync fs (src_path g)"
    and cg: "c = pair_call g s'"
    using c by (auto simp: planned_calls_def attempted_def)
  have "distinct (map (\<lambda>(fn, sz). out_path fn sz) config_pairs)"
    by (simp only: config_output_paths outputs_distinct)
  then have "inj_on (\<lambda>(fn, sz). out_path fn sz) (set config_pairs)"
    by (simp add: distinct_map)
  moreover have "(\<lambda>(fn, sz). out_path fn sz) (fn, sz) = (\<lambda>(fn, sz). out_path fn sz) (g, s')"
    using e cg by simp
  ultimately have "(fn, sz) = (g, s')"
    using assms(2) m by (rule inj_onD)
  then show False using ex assms(1) by simp
qed

section \<open>Stable codecs\<close>

lemma write_file_same [simp]: "map_of (write_file p e fs) p = Some e"
  by (induction fs) auto

lemma write_file_other [simp]: "q \<noteq> p \<Longrightarrow> map_of (write_file p e fs) q = map_of fs q"
  by (induction fs) auto

lemma write_file_idem: "map_of fs p = Some e \<Longrightarrow> write_file p e fs = fs"
  by (induction fs) (auto split: if_splits)

lemma stable_codec_planned:
  "stable_codec enc call fs =
     (case planned enc (map_of fs (call_input call)) call of
        Inr out \<Rightarrow> Written (write_file (call_output call) (File out) fs)
      | Inl e \<Rightarrow> Failed e fs)"
  by (simp add: stable_codec_def planned_def split: option.splits entry.splits sum.splits)

lemma stable_codec_keeps: "keeps_other_paths (stable_codec enc)"
  by (auto simp: keeps_other_paths_def stable_codec_def
      split: option.splits entry.splits sum.splits)

lemma stable_codec_writes: "writes_output (stable_codec enc)"
  by (auto simp: writes_output_def stable_codec_def
      split: option.splits entry.splits sum.splits)

lemma replay_keeps_written:
  "distinct (map call_output calls) \<Longrightarrow>
   \<forall>c\<in>set calls. call_input c \<notin> call_output ` set calls \<Longrightarrow>
   call \<in> set calls \<Longrightarrow>
   planned enc (map_of fs (call_input call)) call = Inr out \<Longrightarrow>
   map_of (replay (stable_codec enc) fs calls) (call_output call) = Some (File out)"
proof (induction calls arbitrary: fs)
  case Nil
  then show ?case by simp
next
  case (Cons a rest)
  let ?fs1 = "result_fs (stable_codec enc a fs)"
  show ?case
  proof (cases "call = a")
    case True
    have "?fs1 = write_file (call_output a) (File out) fs"
      using Cons.prems(4) True by (simp add: stable_codec_planned)
    then have "map_of ?fs1 (call_output a) = Some (File out)"
      by simp
    moreover have "call_output a \<notin> call_output ` set rest"
      using Cons.prems(1) by simp
    then have "map_of (replay (stable_codec enc) ?fs1 rest) (call_output a) =
                 map_of ?fs1 (call_output a)"
      using replay_frame [OF stable_codec_keeps] by blast
    ultimately show ?thesis using True by simp
  next
    case False
    then have m: "call \<in> set rest"
      using Cons.prems(3) by simp
    have "call_input call \<noteq> call_output a"
      using Cons.prems(2,3) by auto
    then have "map_of ?fs1 (call_input call) = map_of fs (call_input call)"
      using keeps_other_pathsD [OF stable_codec_keeps] by blast
    then have p: "planned enc (map_of ?fs1 (call_input call)) call = Inr out"
      using Cons.prems(4) by simp
    have "\<forall>c\<in>set rest. call_input c \<notin> call_output ` set rest"
      using Cons.prems(2) by auto
    then have "map_of (replay (stable_codec enc) ?fs1 rest) (call_output call) = Some (File out)"
      using Cons.IH [OF _ _ m p] Cons.prems(1) by simp
    then show ?thesis by simp
  qed
qed

text \<open>After a traversal with a stable codec, running any configured pair again changes
  nothing: a conversion that fails leaves the filesystem alone, and one that succeeds
  writes what the traversal has already written at that path.\<close>

lemma settled_after_replay:
  assumes "(fn, sz) \<in> set config_pairs"
  shows "result_fs (stable_codec enc (pair_call fn sz)
                     (replay (stable_codec enc) fs (planned_calls fs))) =
           replay (stable_codec enc) fs (planned_calls fs)"
proof -
  let ?F = "replay (stable_codec enc) fs (planned_calls fs)"
  have src: "map_of ?F (src_path fn) = map_of fs (src_path fn)"
    using source_after_replay [OF stable_codec_keeps config_pair_paths(1) [OF assms]] .
  show ?thesis
  proof (cases "planned enc (map_of fs (src_path fn)) (pair_call fn sz)")
    case (Inl e)
    then show ?thesis
      by (simp add: stable_codec_planned src)
  next
    case (Inr out)
    then obtain b where "map_of fs (src_path fn) = Some (File b)"
      by (auto simp: planned_def split: option.splits entry.splits)
    then have "existsSync fs (src_path fn)"
      by (simp add: existsSync_def stat_size_def)
    then have "pair_call fn sz \<in> set (planned_calls fs)"
      using assms by (force simp: planned_calls_def attempted_def)
    moreover have "planned enc (map_of fs (call_input (pair_call fn sz))) (pair_call fn sz) = Inr out"
      using Inr by simp
    ultimately have "map_of ?F (call_output (pair_call fn sz)) = Some (File out)"
      by (rule replay_keeps_written [OF planned_calls_distinct planned_calls_inputs_apart])
    then have "write_file (out_path fn sz) (File out) ?F = ?F"
      by (simp add: write_file_idem)
    then show ?thesis
      using Inr by (simp add: stable_codec_planned src)
  qed
qed

section \<open>Running the traversal a second time\<close>

text \<open>A second run, started on a filesystem \<open>F\<close> that agrees with the first run's on the
  source and on which the pair is settled, does what the first run did and leaves \<open>F\<close>
  as it is.\<close>

lemma size_body_again:
  assumes a: "map_of (fsys w) (src_path fn) = map_of F (src_path fn)"
    and s: "result_fs (stable_codec enc (pair_call fn sz) F) = F"
    and r: "size_body (stable_codec enc) fn (src_path fn) sz t w = Return t1 w1"
  shows "size_body (stable_codec enc) fn (src_path fn) sz t (at_fs F w) = Return t1 (at_fs F w1)"
proof (cases "planned enc (map_of F (src_path fn)) (pair_call fn sz)")
  case (Inl e)
  have "stable_codec enc (pair_call fn sz) (fsys w) = Failed e (fsys w)"
    using Inl a by (simp add: stable_codec_planned)
  then have "Return t1 w1 = Return (fst t, snd t + 1)
         \<lparr>fsys = fsys w,
          trace = trace w @ [Invoke (pair_call fn sz),
                             ErrLog (ConvertError (src_path fn) (message e)),
                             Log (FailedOut (outputName_of fn sz))]\<rparr>"
    using r by (simp add: size_body_Failed)
  moreover have "stable_codec enc (pair_call fn sz) (fsys (at_fs F w)) = Failed e F"
    using Inl by (simp add: stable_codec_planned)
  then have "size_body (stable_codec enc) fn (src_path fn) sz t (at_fs F w) =
       Return (fst t, snd t + 1)
         \<lparr>fsys = F,
          trace = trace (at_fs F w) @ [Invoke (pair_call fn sz),
                             ErrLog (ConvertError (src_path fn) (message e)),
                             Log (FailedOut (outputName_of fn sz))]\<rparr>"
    by (rule size_body_Failed)
  ultimately show ?thesis
    by (auto simp: at_fs_def)
next
  case (Inr out)
  let ?fsA = "write_file (out_path fn sz) (File out) (fsys w)"
  have wF: "write_file (out_path fn sz) (File out) F = F"
    using s Inr by (simp add: stable_codec_planned)
  then have "map_of F (out_path fn sz) = Some (File out)"
    using write_file_same [of "out_path fn sz" "File out" F] by simp
  then have sz_txt: "size_text F (out_path fn sz) = size_text ?fsA (out_path fn sz)"
    by (simp add: size_text_def stat_size_def)
  have "stable_codec enc (pair_call fn sz) (fsys w) = Written ?fsA"
    using Inr a by (simp add: stable_codec_planned)
  then have "Return t1 w1 = Return (fst t + 1, snd t)
         \<lparr>fsys = ?fsA,
          trace = trace w @ [Invoke (pair_call fn sz),
                             Log (Done (outputName_of fn sz) (size_text ?fsA (out_path fn sz)))]\<rparr>"
    using r by (simp add: size_body_Written)
  moreover have "stable_codec enc (pair_call fn sz) (fsys (at_fs F w)) = Written F"
    using Inr wF by (simp add: stable_codec_planned)
  then have "size_body (stable_codec enc) fn (src_path fn) sz t (at_fs F w) =
       Return (fst t + 1, snd t)
         \<lparr>fsys = F,
          trace = trace (at_fs F w) @ [Invoke (pair_call fn sz),
                             Log (Done (outputName_of fn sz) (size_text F (out_path fn sz)))]\<rparr>"
    by (rule size_body_Written)
  ultimately show ?thesis
    using sz_txt by (auto simp: at_fs_def)
qed

lemma sizes_loop_again:
  "map_of (fsys w) (src_path fn) = map_of F (src_path fn) \<Longrightarrow>
   \<forall>sz\<in>set szs. result_fs (stable_codec enc (pair_call fn sz) F) = F \<Longrightarrow>
   \<forall>sz\<in>set szs. src_path fn \<noteq> out_path fn sz \<Longrightarrow>
   sizes_loop (stable_codec enc) fn (src_path fn) szs t w = Return t' w' \<Longrightarrow>
   sizes_loop (stable_codec enc) fn (src_path fn) szs t (at_fs F w) = Return t' (at_fs F w')"
proof (induction szs arbitrary: t w)
  case Nil
  then show ?case by simp
next
  case (Cons sz rest)
  obtain t1 w1 where b: "size_body (stable_codec enc) fn (src_path fn) sz t w = Return t1 w1"
    using size_body_effect [of "stable_codec enc" fn sz t w] by blast
  have l: "sizes_loop (stable_codec enc) fn (src_path fn) rest t1 w1 = Return t' w'"
    using Cons.prems(4) b by simp
  have b': "size_body (stable_codec enc) fn (src_path fn) sz t (at_fs F w) = Return t1 (at_fs F w1)"
    using size_body_again [OF Cons.prems(1) _ b] Cons.prems(2) by simp
  have "map_of (fsys w1) (src_path fn) = map_of (fsys w) (src_path fn)"
    using size_body_frame [OF stable_codec_keeps _ b] Cons.prems(3) by simp
  then have a1: "map_of (fsys w1) (src_path fn) = map_of F (src_path fn)"
    using Cons.prems(1) by simp
  have "sizes_loop (stable_codec enc) fn (src_path fn) rest t1 (at_fs F w1) = Return t' (at_fs F w')"
    using Cons.IH [OF a1 _ _ l] Cons.prems(2,3) by simp
  then show ?case
    using b' by simp
qed

lemma file_body_again:
  assumes a: "map_of (fsys w) (src_path fn) = map_of F (src_path fn)"
    and s: "\<forall>sz\<in>set szs. result_fs (stable_codec enc (pair_call fn sz) F) = F"
    and d: "\<forall>sz\<in>set szs. src_path fn \<noteq> out_path fn sz"
    and r: "file_body (stable_codec enc) szs fn t w = Return t' w'"
  shows "file_body (stable_codec enc) szs fn t (at_fs F w) = Return t' (at_fs F w')"
proof (cases "existsSync (fsys w) (src_path fn)")
  case False
  then have "\<not> existsSync (fsys (at_fs F w)) (src_path fn)"
    using existsSync_same [OF a] by simp
  then have "file_body (stable_codec enc) szs fn t (at_fs F w) =
               Return t (emit (Log (NotFound fn)) (at_fs F w))"
    by (rule file_body_missing)
  moreover have "Return t' w' = Return t (emit (Log (NotFound fn)) w)"
    using r False by (simp add: file_body_missing)
  ultimately show ?thesis by auto
next
  case True
  let ?ev = "Log (SourceLine fn (size_text (fsys w) (src_path fn)))"
  have e: "existsSync (fsys (at_fs F w)) (src_path fn)"
    using True existsSync_same [OF a] by simp
  have sz_txt: "size_text (fsys (at_fs F w)) (src_path fn) = size_text (fsys w) (src_path fn)"
    using size_text_same [OF a] by simp
  have "sizes_loop (stable_codec enc) fn (src_path fn) szs t (emit ?ev w) = Return t' w'"
    using r True by (simp add: file_body_present)
  moreover have "map_of (fsys (emit ?ev w)) (src_path fn) = map_of F (src_path fn)"
    using a by simp
  ultimately have "sizes_loop (stable_codec enc) fn (src_path fn) szs t (at_fs F (emit ?ev w)) =
               Return t' (at_fs F w')"
    using sizes_loop_again [OF _ s d] by blast
  then show ?thesis
    using e sz_txt by (simp add: file_body_present)
qed

lemma files_loop_again:
  "\<forall>g\<in>set fls. map_of (fsys w) (src_path g) = map_of F (src_path g) \<Longrightarrow>
   \<forall>g\<in>set fls. \<forall>sz\<in>set szs. result_fs (stable_codec enc (pair_call g sz) F) = F \<Longrightarrow>
   \<forall>f\<in>set fls. \<forall>g\<in>set fls. \<forall>sz\<in>set szs. src_path g \<noteq> out_path f sz \<Longrightarrow>
   files_loop (stable_codec enc) szs fls t w = Return t' w' \<Longrightarrow>
   files_loop (stable_codec enc) szs fls t (at_fs F w) = Return t' (at_fs F w')"
proof (induction fls arbitrary: t w)
  case Nil
  then show ?case by simp
next
  case (Cons fn rest)
  obtain t1 w1 where b: "file_body (stable_codec enc) szs fn t w = Return t1 w1"
    using file_body_effect [of "stable_codec enc" szs fn t w] by blast
  have l: "files_loop (stable_codec enc) szs rest t1 w1 = Return t' w'"
    using Cons.prems(4) b by simp
  have b': "file_body (stable_codec enc) szs fn t (at_fs F w) = Return t1 (at_fs F w1)"
    using file_body_again [OF _ _ _ b] Cons.prems(1,2,3) by simp
  have a1: "\<forall>g\<in>set rest. map_of (fsys w1) (src_path g) = map_of F (src_path g)"
  proof
    fix g assume g: "g \<in> set rest"
    then have "\<forall>sz\<in>set szs. src_path g \<noteq> out_path fn sz"
      using Cons.prems(3) by simp
    then have "map_of (fsys w1) (src_path g) = map_of (fsys w) (src_path g)"
      using file_body_frame [OF stable_codec_keeps _ b] by blast
    then show "map_of (fsys w1) (src_path g) = map_of F (src_path g)"
      using Cons.prems(1) g by simp
  qed
  have "files_loop (stable_codec enc) szs rest t1 (at_fs F w1) = Return t' (at_fs F w')"
    using Cons.IH [OF a1 _ _ l] Cons.prems(2,3) by simp
  then show ?case
    using b' by simp
qed

lemma tier_loop_again:
  assumes tr: "tr \<in> set tiers"
    and a: "\<forall>p\<in>set all_source_paths. map_of (fsys w) p = map_of F p"
    and s: "\<forall>(fn, sz)\<in>set config_pairs. result_fs (stable_codec enc (pair_call fn sz) F) = F"
    and r: "tier_loop (stable_codec enc) banner tr t w = Return t' w'"
  shows "tier_loop (stable_codec enc) banner tr t (at_fs F w) = Return t' (at_fs F w')"
proof -
  let ?ev = "Log (TierBanner banner)"
  have l: "files_loop (stable_codec enc) (sizes tr) (files tr) t (emit ?ev w) = Return t' w'"
    using r by (simp add: tier_loop_def console_log_def)
  have a': "\<forall>g\<in>set (files tr). map_of (fsys (emit ?ev w)) (src_path g) = map_of F (src_path g)"
    using a src_path_listed [OF tr] by simp
  have s': "\<forall>g\<in>set (files tr). \<forall>sz\<in>set (sizes tr).
              result_fs (stable_codec enc (pair_call g sz) F) = F"
    using s pair_in_config [OF tr] by blast
  have d: "\<forall>f\<in>set (files tr). \<forall>g\<in>set (files tr). \<forall>sz\<in>set (sizes tr).
             src_path g \<noteq> out_path f sz"
    using config_src_out [OF tr _ _ tr] by blast
  have "files_loop (stable_codec enc) (sizes tr) (files tr) t (at_fs F (emit ?ev w)) =
          Return t' (at_fs F w')"
    using a' s' d l by (rule files_loop_again)
  then show ?thesis
    by (simp add: tier_loop_def console_log_def)
qed

lemma traverse_again:
  assumes a: "\<forall>p\<in>set all_source_paths. map_of (fsys w) p = map_of F p"
    and s: "\<forall>(fn, sz)\<in>set config_pairs. result_fs (stable_codec enc (pair_call fn sz) F) = F"
    and r: "traverse (stable_codec enc) w = Return t w'"
  shows "traverse (stable_codec enc) (at_fs F w) = Return t (at_fs F w')"
proof -
  let ?c = "stable_codec enc"
  let ?w0 = "emit (Log Starting) w"
  obtain t1 w1 t2 w2 where
    l1: "tier_loop ?c ''large'' config_large (0, 0) ?w0 = Return t1 w1"
    and l2: "tier_loop ?c ''product'' config_product t1 w1 = Return t2 w2"
    and l3: "traverse ?c w = tier_loop ?c ''review'' config_review t2 w2"
    using traverse_steps [of ?c w] by blast
  have m: "config_large \<in> set tiers" "config_product \<in> set tiers" "config_review \<in> set tiers"
    by (simp_all add: tiers_def)
  have l3': "tier_loop ?c ''review'' config_review t2 w2 = Return t w'"
    using l3 r by simp
  have a0: "\<forall>p\<in>set all_source_paths. map_of (fsys ?w0) p = map_of F p"
    using a by simp
  have a1: "\<forall>p\<in>set all_source_paths. map_of (fsys w1) p = map_of F p"
    using tier_loop_sources [OF stable_codec_keeps m(1) l1] a0 by simp
  have a2: "\<forall>p\<in>set all_source_paths. map_of (fsys w2) p = map_of F p"
    using tier_loop_sources [OF stable_codec_keeps m(2) l2] a1 by simp
  have b1: "tier_loop ?c ''large'' config_large (0, 0) (at_fs F ?w0) = Return t1 (at_fs F w1)"
    using m(1) a0 s l1 by (rule tier_loop_again)
  have b2: "tier_loop ?c ''product'' config_product t1 (at_fs F w1) = Return t2 (at_fs F w2)"
    using m(2) a1 s l2 by (rule tier_loop_again)
  have b3: "tier_loop ?c ''review'' config_review t2 (at_fs F w2) = Return t (at_fs F w')"
    using m(3) a2 s l3' by (rule tier_loop_again)
  show ?thesis
    using b1 b2 b3 by (simp add: traverse_def console_log_def)
qed

text \<open>The traversal with a stable codec, run again on the filesystem it has left and
  from the same console state, returns the same tally, prints the same lines, makes the
  same codec calls and leaves the filesystem as it found it.\<close>

lemma traverse_twice:
  assumes "traverse (stable_codec enc) w = Return t w'"
  shows "traverse (stable_codec enc) (at_fs (fsys w') w) = Return t w'"
proof -
  let ?c = "stable_codec enc"
  have F: "fsys w' = replay ?c (fsys w) (planned_calls (fsys w))"
    using traverse_final_fs [OF stable_codec_keeps assms] by (simp add: planned_calls_def)
  have a: "\<forall>p\<in>set all_source_paths. map_of (fsys w) p = map_of (fsys w') p"
    using source_after_replay [OF stable_codec_keeps, of _ enc "fsys w" "fsys w"] F by simp
  have s: "\<forall>(fn, sz)\<in>set config_pairs. result_fs (?c (pair_call fn sz) (fsys w')) = fsys w'"
    using settled_after_replay [of _ _ "enc" "fsys w"] F by auto
  have "traverse ?c (at_fs (fsys w') w) = Return t (at_fs (fsys w') w')"
    using a s assms by (rule traverse_again)
  then show ?thesis by simp
qed

section \<open>A concrete run\<close>

lemmas run_defs =
  traverse_def tier_loop_def config_large_def config_product_def
  config_review_def file_body_def Let_def size_body_def convertImage_def sharp_toFile_def
  stable_codec_def getFileSize_def statSync_def console_log_def console_error_def
  emit_def path_join_def inputDir_def path_normalize_def existsSync_def stat_size_def
  outputName_of_def starts_with_def toFixed2_MB_def show_nat.simps digit_def
  pair_call_def conversion_call_def

lemma demo_traverse: "traverse (stable_codec demo_enc) demo_world = Return (3, 1) demo_after"
  by (simp add: run_defs demo_enc_def demo_world_def demo_fs_def demo_after_def
      demo_fs_after_def demo_events_def)

lemma demo_readdir:
  "readdir demo_fs_after inputDir =
     Some [''004.png'', ''old.webp'', ''004-small.webp'', ''004-large.webp'', ''004-thumbnail.webp'']"
  by (simp add: readdir_def demo_fs_after_def inputDir_def path_normalize_def
      List.map_filter_def child_name_def starts_with_def)

lemma demo_summary_ok: "summary_ok demo_fs_after"
  by (simp add: summary_ok_def demo_readdir ends_with_def)
     (simp add: demo_fs_after_def existsSync_def stat_size_def path_join_def inputDir_def
        path_normalize_def)

lemma demo_webp_total: "webp_total demo_fs_after = 18"
  by (simp add: webp_total_def demo_readdir ends_with_def entry_size_def)
     (simp add: demo_fs_after_def stat_size_def path_join_def inputDir_def path_normalize_def)

lemma demo_run: "processImages (stable_codec demo_enc) demo_world = Return Undefined demo_final"
  by (simp add: processImages_def demo_traverse)
     (simp add: demo_after_def report_Return demo_summary_ok demo_webp_total summary_lines_def
        demo_final_def inputDir_def)

lemma demo_medium_fails:
  "stable_codec demo_enc (pair_call ''004.png'' medium) (fsys demo_world) =
     Failed (JsError ''boom'') demo_fs"
  by (simp add: stable_codec_def demo_enc_def demo_world_def demo_fs_def medium_def
      pair_call_def conversion_call_def path_join_def inputDir_def path_normalize_def)

lemma demo_small_written:
  "stable_codec demo_enc (pair_call ''004.png'' small) (fsys demo_world) =
     Written (demo_fs @ [(''images/blanche/004-small.webp'', File [1, 2, 3, 4, 5])])"
  by (simp add: stable_codec_def demo_enc_def demo_world_def demo_fs_def small_def
      pair_call_def conversion_call_def path_join_def inputDir_def path_normalize_def
      outputName_of_def starts_with_def)

lemma demo_contract: "no_upscale_contract demo_width (stable_codec demo_enc)"
  unfolding no_upscale_contract_def
proof (intro allI impI)
  fix call fs fs'
  assume a: "stable_codec demo_enc call fs = Written fs' \<and> withoutEnlargement call \<and> fit call = Inside"
  then obtain src where s: "map_of fs (call_input call) = Some (File src)"
    by (auto simp: stable_codec_def split: option.splits entry.splits)
  have f: "fs' = write_file (call_output call) (File (take (resize_width call) src)) fs"
    using a s by (auto simp: stable_codec_def demo_enc_def split: if_splits)
  show "\<exists>src out ws wo.
           map_of fs (call_input call) = Some (File src)
         \<and> map_of fs' (call_output call) = Some (File out)
         \<and> demo_width src = Some ws \<and> demo_width out = Some wo
         \<and> wo \<le> resize_width call \<and> wo \<le> ws"
    using s f by (simp add: demo_width_def)
qed

lemma demo_exists_004: "existsSync (fsys demo_world) (path_join inputDir ''004.png'')"
  by (simp add: demo_world_def demo_fs_def existsSync_def stat_size_def path_join_def
      inputDir_def path_normalize_def)

lemma demo_file_body_004:
  "file_body (stable_codec copy_enc) (sizes config_large) ''004.png'' (0, 0) demo_world =
     Return (4, 0) demo_004"
  by (simp add: config_large_def file_body_def Let_def size_body_def convertImage_def
      sharp_toFile_def stable_codec_def getFileSize_def statSync_def console_log_def
      console_error_def emit_def path_join_def inputDir_def path_normalize_def existsSync_def
      stat_size_def outputName_of_def starts_with_def toFixed2_MB_def show_nat.simps digit_def
      pair_call_def conversion_call_def copy_enc_def demo_world_def demo_fs_def demo_004_def)

lemma demo_missing_2: "\<not> existsSync (fsys demo_world) (path_join inputDir ''2.png'')"
  by (simp add: demo_world_def demo_fs_def existsSync_def stat_size_def path_join_def
      inputDir_def path_normalize_def)

lemma no_directory_traverse:
  "\<exists>w1. traverse (stable_codec demo_enc) no_directory = Return (0, 0) w1 \<and> fsys w1 = []"
  by (simp add: run_defs no_directory_def)

section \<open>The claims\<close>

text \<open>
  C1, as stated, fails: \<^verbatim>\<open>processImages\<close> has no \<^verbatim>\<open>return\<close> statement, so the
  value handed to the caller is \<^verbatim>\<open>undefined\<close>, which carries no counts. In the concrete
  run below the tally is 3 converted and 1 failed, and the returned value is
  \<^verbatim>\<open>undefined\<close>.
\<close>

theorem returned_value_counterexample:
  "value_of (processImages (stable_codec demo_enc) demo_world) = Some Undefined
   \<and> value_of (traverse (stable_codec demo_enc) demo_world) = Some (3, 1)
   \<and> \<not> carries_tally Undefined (3, 1)"
  by (simp add: demo_run demo_traverse carries_tally_def)

text \<open>
  C1, amended. The traversal of the three tiers always completes with a tally (the number
  of success lines and the number of failure lines it printed); \<^verbatim>\<open>processImages\<close>
  then returns \<^verbatim>\<open>undefined\<close> or throws, and in both cases it has printed the tally
  in the summary block, right after the traversal.
\<close>

theorem tally_printed_not_returned:
  "\<exists>t w1 evs. traverse sharp w = Return t w1
     \<and> trace w1 = trace w @ evs
     \<and> t = (conversions evs, failures evs)
     \<and> (value_of (processImages sharp w) = Some Undefined
          \<or> value_of (processImages sharp w) = None)
     \<and> (\<exists>rest. trace (world_of (processImages sharp w)) =
           trace w1 @ [Log Rule, Log Complete, Log (ConvertedCount (fst t)),
                       Log (FailedCount (snd t)), Log (OutputDirectory inputDir), Log Rule] @ rest)"
proof -
  obtain t w1 evs where
    tv: "traverse sharp w = Return t w1"
    and tr: "trace w1 = trace w @ evs"
    and c: "fst t = conversions evs"
    and f: "snd t = failures evs"
    using traverse_effect [of sharp w] by blast
  have p: "processImages sharp w = report t w1"
    using tv by (simp add: processImages_def)
  have "(value_of (report t w1) = Some Undefined \<or> value_of (report t w1) = None)
        \<and> (\<exists>rest. trace (world_of (report t w1)) = trace w1 @ summary_lines t @ rest)"
  proof (cases "summary_ok (fsys w1)")
    case True
    then show ?thesis by (simp add: report_Return)
  next
    case False
    then obtain e where "report t w1 = Throw e (w1\<lparr>trace := trace w1 @ summary_lines t\<rparr>)"
      using report_Throw by blast
    then show ?thesis by simp
  qed
  then have "(value_of (processImages sharp w) = Some Undefined
               \<or> value_of (processImages sharp w) = None)
        \<and> (\<exists>rest. trace (world_of (processImages sharp w)) =
              trace w1 @ [Log Rule, Log Complete, Log (ConvertedCount (fst t)),
                          Log (FailedCount (snd t)), Log (OutputDirectory inputDir), Log Rule] @ rest)"
    using p by (simp add: summary_lines_def)
  moreover have "t = (conversions evs, failures evs)"
    using c f by (simp add: prod_eq_iff)
  ultimately show ?thesis using tv tr by blast
qed

text \<open>
  C2. For a codec that touches no path but the output it is asked to write, and a
  traversal that starts with the tally at zero: the codec is invoked once for each
  configured (file, size) pair whose source exists, in the order of the configuration,
  and for no other pair; the converted count is the number of success lines, the failed
  count the number of failure lines, and their sum is the number of those pairs.
\<close>

theorem tally_counts_attempted_pairs:
  assumes "keeps_other_paths sharp" and "traverse sharp w = Return t w'"
  shows "\<exists>evs. trace w' = trace w @ evs
           \<and> fst t = conversions evs
           \<and> snd t = failures evs
           \<and> invocations evs =
                map (\<lambda>(fn, sz). pair_call fn sz)
                  (filter (\<lambda>(fn, sz). existsSync (fsys w) (path_join inputDir fn)) config_pairs)
           \<and> fst t + snd t =
                length (filter (\<lambda>(fn, sz). existsSync (fsys w) (path_join inputDir fn)) config_pairs)"
proof -
  obtain evs where
    tr: "trace w' = trace w @ evs"
    and c: "fst t = conversions evs" and f: "snd t = failures evs"
    and n: "conversions evs + failures evs = length (invocations evs)"
    using traverse_effect [of sharp w] assms(2) by auto
  have inv: "invocations evs = map (\<lambda>(fn, sz). pair_call fn sz) (attempted (fsys w) config_pairs)"
    using traverse_calls [OF assms] tr by simp
  then have "fst t + snd t = length (attempted (fsys w) config_pairs)"
    using c f n by simp
  then show ?thesis
    using tr c f inv by (auto simp: attempted_def)
qed

theorem tally_counts_attempted_pairs_witness:
  "keeps_other_paths (stable_codec demo_enc)
   \<and> traverse (stable_codec demo_enc) demo_world = Return (3, 1) demo_after
   \<and> length (filter (\<lambda>(fn, sz). existsSync (fsys demo_world) (path_join inputDir fn)) config_pairs) = 4
   \<and> (\<exists>evs. trace demo_after = trace demo_world @ evs
           \<and> fst (3::nat, 1::nat) = conversions evs
           \<and> snd (3::nat, 1::nat) = failures evs
           \<and> invocations evs =
                map (\<lambda>(fn, sz). pair_call fn sz)
                  (filter (\<lambda>(fn, sz). existsSync (fsys demo_world) (path_join inputDir fn)) config_pairs)
           \<and> fst (3::nat, 1::nat) + snd (3::nat, 1::nat) =
                length (filter (\<lambda>(fn, sz). existsSync (fsys demo_world) (path_join inputDir fn)) config_pairs))"
  using stable_codec_keeps [of demo_enc] demo_traverse
    tally_counts_attempted_pairs [OF stable_codec_keeps demo_traverse]
  by auto

text \<open>
  C3. When the source path of a filename does not exist, the body of the file loop logs
  the skip notice and does nothing else: the tally and the filesystem are unchanged, the
  codec is not invoked, and the loop goes on with the next filename. For a whole
  traversal started where the source of a configured filename is missing, with a codec
  that touches no path but its output: the skip notice for the filename is printed, no
  codec call reads its source path, and the output paths of its size-specs hold after
  the traversal what they held before it.
\<close>

theorem missing_source_skipped:
  assumes "\<not> existsSync (fsys w) (path_join inputDir filename)"
  shows "file_body sharp szs filename t w = Return t (emit (Log (NotFound filename)) w)
       \<and> files_loop sharp szs (filename # rest) t w =
           files_loop sharp szs rest t (emit (Log (NotFound filename)) w)
       \<and> fsys (emit (Log (NotFound filename)) w) = fsys w
       \<and> invocations (trace (emit (Log (NotFound filename)) w)) = invocations (trace w)
       \<and> (\<forall>tr t' w'.
             keeps_other_paths sharp \<and> tr \<in> set tiers \<and> filename \<in> set (files tr)
             \<and> traverse sharp w = Return t' w' \<longrightarrow>
               (\<exists>evs. trace w' = trace w @ evs
                  \<and> Log (NotFound filename) \<in> set evs
                  \<and> (\<forall>c\<in>set (invocations evs). call_input c \<noteq> path_join inputDir filename))
             \<and> (\<forall>sz\<in>set (sizes tr).
                   map_of (fsys w') (path_join inputDir (outputName_of filename sz)) =
                   map_of (fsys w) (path_join inputDir (outputName_of filename sz))))"
proof -
  have step: "file_body sharp szs filename t w = Return t (emit (Log (NotFound filename)) w)
       \<and> files_loop sharp szs (filename # rest) t w =
           files_loop sharp szs rest t (emit (Log (NotFound filename)) w)
       \<and> fsys (emit (Log (NotFound filename)) w) = fsys w
       \<and> invocations (trace (emit (Log (NotFound filename)) w)) = invocations (trace w)"
    using assms by (simp add: file_body_missing)
  have run: "\<forall>tr t' w'.
             keeps_other_paths sharp \<and> tr \<in> set tiers \<and> filename \<in> set (files tr)
             \<and> traverse sharp w = Return t' w' \<longrightarrow>
               (\<exists>evs. trace w' = trace w @ evs
                  \<and> Log (NotFound filename) \<in> set evs
                  \<and> (\<forall>c\<in>set (invocations evs). call_input c \<noteq> path_join inputDir filename))
             \<and> (\<forall>sz\<in>set (sizes tr).
                   map_of (fsys w') (path_join inputDir (outputName_of filename sz)) =
                   map_of (fsys w) (path_join inputDir (outputName_of filename sz)))"
  proof (intro allI impI, elim conjE)
    fix tr t' w'
    assume k: "keeps_other_paths sharp" and m: "tr \<in> set tiers"
      and f: "filename \<in> set (files tr)" and r: "traverse sharp w = Return t' w'"
    obtain evs where tr: "trace w' = trace w @ evs" and n: "Log (NotFound filename) \<in> set evs"
      using traverse_notices [OF k r m f assms] by blast
    have inv: "invocations evs = planned_calls (fsys w)"
      using traverse_calls [OF k r] tr by (simp add: planned_calls_def)
    have calls: "\<forall>c\<in>set (invocations evs). call_input c \<noteq> path_join inputDir filename"
      using missing_source_no_call [OF assms] inv by simp
    have F: "fsys w' = replay sharp (fsys w) (planned_calls (fsys w))"
      using traverse_final_fs [OF k r] by (simp add: planned_calls_def)
    have outs: "\<forall>sz\<in>set (sizes tr).
                   map_of (fsys w') (path_join inputDir (outputName_of filename sz)) =
                   map_of (fsys w) (path_join inputDir (outputName_of filename sz))"
    proof
      fix sz assume "sz \<in> set (sizes tr)"
      then have "(filename, sz) \<in> set config_pairs"
        using m f pair_in_config by blast
      then have "out_path filename sz \<notin> call_output ` set (planned_calls (fsys w))"
        using missing_source_no_output [OF assms] by blast
      then show "map_of (fsys w') (out_path filename sz) = map_of (fsys w) (out_path filename sz)"
        using replay_frame [OF k] F by simp
    qed
    show "(\<exists>evs. trace w' = trace w @ evs
                  \<and> Log (NotFound filename) \<in> set evs
                  \<and> (\<forall>c\<in>set (invocations evs). call_input c \<noteq> path_join inputDir filename))
             \<and> (\<forall>sz\<in>set (sizes tr).
                   map_of (fsys w') (path_join inputDir (outputName_of filename sz)) =
                   map_of (fsys w) (path_join inputDir (outputName_of filename sz)))"
      using tr n calls outs by blast
  qed
  show ?thesis
    using step run by (intro conjI) simp_all
qed

theorem missing_source_skipped_witness:
  "\<not> existsSync (fsys demo_world) (path_join inputDir ''2.png'')
   \<and> file_body (stable_codec demo_enc) (sizes config_product) ''2.png'' (3, 1) demo_world =
       Return (3, 1) (emit (Log (NotFound ''2.png'')) demo_world)
   \<and> files_loop (stable_codec demo_enc) (sizes config_product) [''2.png'', ''3.png''] (3, 1) demo_world =
       files_loop (stable_codec demo_enc) (sizes config_product) [''3.png''] (3, 1)
         (emit (Log (NotFound ''2.png'')) demo_world)
   \<and> keeps_other_paths (stable_codec demo_enc)
   \<and> config_product \<in> set tiers
   \<and> ''2.png'' \<in> set (files config_product)
   \<and> traverse (stable_codec demo_enc) demo_world = Return (3, 1) demo_after
   \<and> (\<exists>evs. trace demo_after = trace demo_world @ evs
         \<and> Log (NotFound ''2.png'') \<in> set evs
         \<and> list_all (\<lambda>c. call_input c \<noteq> path_join inputDir ''2.png'') (invocations evs))
   \<and> list_all (\<lambda>sz. map_of (fsys demo_after) (path_join inputDir (outputName_of ''2.png'' sz)) =
                      map_of (fsys demo_world) (path_join inputDir (outputName_of ''2.png'' sz)))
        (sizes config_product)"
proof -
  have m: "config_product \<in> set tiers" "''2.png'' \<in> set (files config_product)"
    by (simp_all add: tiers_def config_product_def)
  have "(\<exists>evs. trace demo_after = trace demo_world @ evs
           \<and> Log (NotFound ''2.png'') \<in> set evs
           \<and> (\<forall>c\<in>set (invocations evs). call_input c \<noteq> path_join inputDir ''2.png''))
        \<and> (\<forall>sz\<in>set (sizes config_product).
              map_of (fsys demo_after) (path_join inputDir (outputName_of ''2.png'' sz)) =
              map_of (fsys demo_world) (path_join inputDir (outputName_of ''2.png'' sz)))"
    using missing_source_skipped [OF demo_missing_2, where sharp = "stable_codec demo_enc"]
      stable_codec_keeps [of demo_enc] m demo_traverse
    by blast
  then have run: "(\<exists>evs. trace demo_after = trace demo_world @ evs
         \<and> Log (NotFound ''2.png'') \<in> set evs
         \<and> list_all (\<lambda>c. call_input c \<noteq> path_join inputDir ''2.png'') (invocations evs))
     \<and> list_all (\<lambda>sz. map_of (fsys demo_after) (path_join inputDir (outputName_of ''2.png'' sz)) =
                      map_of (fsys demo_world) (path_join inputDir (outputName_of ''2.png'' sz)))
        (sizes config_product)"
    unfolding list_all_iff by blast
  have step: "file_body (stable_codec demo_enc) (sizes config_product) ''2.png'' (3, 1) demo_world =
       Return (3, 1) (emit (Log (NotFound ''2.png'')) demo_world)
   \<and> files_loop (stable_codec demo_enc) (sizes config_product) [''2.png'', ''3.png''] (3, 1) demo_world =
       files_loop (stable_codec demo_enc) (sizes config_product) [''3.png''] (3, 1)
         (emit (Log (NotFound ''2.png'')) demo_world)"
    using missing_source_skipped [OF demo_missing_2, where sharp = "stable_codec demo_enc"
        and szs = "sizes config_product" and rest = "[''3.png'']" and t = "(3, 1)"]
    by simp
  show ?thesis
    using demo_missing_2 step stable_codec_keeps [of demo_enc] m demo_traverse run
    by (intro conjI) simp_all
qed

text \<open>
  C4. When the codec rejects the call for a (file, size) pair, the pair is counted as
  failed (the failed count goes up by one, the converted count stays), the error message
  is written to the error console, and nothing is thrown: the size loop goes on with
  the remaining sizes of the file, all of which are attempted. The traversal as a whole
  returns for every codec, and for a codec that touches no path but its output it
  invokes the codec for every configured pair whose source exists, whichever of the
  calls fail.
\<close>

theorem codec_failure_counted_run_continues:
  assumes "sharp (pair_call filename sz) (fsys w) = Failed e fs'"
    and "keeps_other_paths sharp"
  shows "size_body sharp filename (path_join inputDir filename) sz t w =
           Return (fst t, snd t + 1)
             \<lparr>fsys = fs',
              trace = trace w @ [Invoke (pair_call filename sz),
                                 ErrLog (ConvertError (path_join inputDir filename) (message e)),
                                 Log (FailedOut (outputName_of filename sz))]\<rparr>
       \<and> sizes_loop sharp filename (path_join inputDir filename) (sz # rest) t w =
           sizes_loop sharp filename (path_join inputDir filename) rest (fst t, snd t + 1)
             \<lparr>fsys = fs',
              trace = trace w @ [Invoke (pair_call filename sz),
                                 ErrLog (ConvertError (path_join inputDir filename) (message e)),
                                 Log (FailedOut (outputName_of filename sz))]\<rparr>
       \<and> (\<exists>t1 w1 evs. sizes_loop sharp filename (path_join inputDir filename) (sz # rest) t w =
                          Return t1 w1
             \<and> trace w1 = trace w @ evs
             \<and> invocations evs = map (pair_call filename) (sz # rest)
             \<and> fst t1 = fst t + conversions evs \<and> snd t1 = snd t + failures evs)
       \<and> (\<exists>t2 w2 evs. traverse sharp w0 = Return t2 w2
             \<and> trace w2 = trace w0 @ evs
             \<and> invocations evs =
                  map (\<lambda>(fn, sz). pair_call fn sz)
                    (filter (\<lambda>(fn, sz). existsSync (fsys w0) (path_join inputDir fn)) config_pairs)
             \<and> fst t2 = conversions evs \<and> snd t2 = failures evs)"
proof -
  let ?w1 = "\<lparr>fsys = fs',
              trace = trace w @ [Invoke (pair_call filename sz),
                                 ErrLog (ConvertError (path_join inputDir filename) (message e)),
                                 Log (FailedOut (outputName_of filename sz))]\<rparr>"
  have b: "size_body sharp filename (path_join inputDir filename) sz t w =
             Return (fst t, snd t + 1) ?w1"
    using assms(1) by (rule size_body_Failed)
  have l: "sizes_loop sharp filename (path_join inputDir filename) (sz # rest) t w =
             sizes_loop sharp filename (path_join inputDir filename) rest (fst t, snd t + 1) ?w1"
    using b by simp
  have s: "\<exists>t1 w1 evs. sizes_loop sharp filename (path_join inputDir filename) (sz # rest) t w =
                          Return t1 w1
             \<and> trace w1 = trace w @ evs
             \<and> invocations evs = map (pair_call filename) (sz # rest)
             \<and> fst t1 = fst t + conversions evs \<and> snd t1 = snd t + failures evs"
    using sizes_loop_effect [of sharp filename "sz # rest" t w] by blast
  obtain t2 w2 evs where
    tv: "traverse sharp w0 = Return t2 w2"
    and tr: "trace w2 = trace w0 @ evs"
    and c: "fst t2 = conversions evs" and f: "snd t2 = failures evs"
    using traverse_effect [of sharp w0] by blast
  have "invocations evs =
          map (\<lambda>(fn, sz). pair_call fn sz)
            (filter (\<lambda>(fn, sz). existsSync (fsys w0) (path_join inputDir fn)) config_pairs)"
    using traverse_calls [OF assms(2) tv] tr by (simp add: attempted_def)
  then have r: "\<exists>t2 w2 evs. traverse sharp w0 = Return t2 w2
             \<and> trace w2 = trace w0 @ evs
             \<and> invocations evs =
                  map (\<lambda>(fn, sz). pair_call fn sz)
                    (filter (\<lambda>(fn, sz). existsSync (fsys w0) (path_join inputDir fn)) config_pairs)
             \<and> fst t2 = conversions evs \<and> snd t2 = failures evs"
    using tv tr c f by blast
  show ?thesis
    using b l s r by (intro conjI)
qed

theorem codec_failure_counted_run_continues_witness:
  "stable_codec demo_enc (pair_call ''004.png'' medium) (fsys demo_world) =
     Failed (JsError ''boom'') demo_fs
   \<and> keeps_other_paths (stable_codec demo_enc)
   \<and> size_body (stable_codec demo_enc) ''004.png'' (path_join inputDir ''004.png'') medium (1, 0)
        demo_world =
       Return (1, 1)
         \<lparr>fsys = demo_fs,
          trace = [Invoke (pair_call ''004.png'' medium),
                   ErrLog (ConvertError ''images/blanche/004.png'' ''boom''),
                   Log (FailedOut ''004-medium.webp'')]\<rparr>
   \<and> (\<exists>t1 w1 evs. sizes_loop (stable_codec demo_enc) ''004.png'' (path_join inputDir ''004.png'')
                      [medium, small] (1, 0) demo_world = Return t1 w1
         \<and> trace w1 = trace demo_world @ evs
         \<and> invocations evs = map (pair_call ''004.png'') [medium, small])"
proof -
  have p: "path_join inputDir ''004.png'' = ''images/blanche/004.png''"
    by (simp add: path_join_def inputDir_def path_normalize_def)
  have n: "outputName_of ''004.png'' medium = ''004-medium.webp''"
    by (simp add: outputName_of_def medium_def starts_with_def)
  show ?thesis
    using demo_medium_fails stable_codec_keeps [of demo_enc]
      codec_failure_counted_run_continues [OF demo_medium_fails stable_codec_keeps,
        where t = "(1, 0)" and rest = "[small]" and ?w0.0 = demo_world]
    by (auto simp: p n demo_world_def)
qed

text \<open>
  C5. For every filename of the configuration and every size of its tier, the output
  name the script computes (the first \<^verbatim>\<open>.png\<close> of the name replaced by nothing,
  then \<^verbatim>\<open>-suffix.webp\<close>) is the name with the extension \<^verbatim>\<open>.png\<close> stripped,
  followed by \<^verbatim>\<open>-suffix.webp\<close>. For the source \<^verbatim>\<open>004.png\<close> of the large tier,
  when it exists: the codec is asked for exactly the four outputs
  \<^verbatim>\<open>004-small.webp\<close>, \<^verbatim>\<open>004-medium.webp\<close>, \<^verbatim>\<open>004-large.webp\<close> and
  \<^verbatim>\<open>004-thumbnail.webp\<close> in the input directory; when no conversion fails, with a
  codec that writes a file at the output path it is given and touches no other path, the
  converted count goes up by four, these four files exist afterwards and no other path
  has changed.
\<close>

theorem output_names_strip_extension:
  assumes "keeps_other_paths sharp" and "writes_output sharp"
    and "existsSync (fsys w) (path_join inputDir ''004.png'')"
    and "file_body sharp (sizes config_large) ''004.png'' t w = Return t' w'"
    and "snd t' = snd t"
  shows "map (\<lambda>(fn, sz). outputName_of fn sz) config_pairs =
           map (\<lambda>(fn, sz). strip_ext fn ''.png'' @ ''-'' @ suffix sz @ ''.webp'') config_pairs
       \<and> (\<exists>evs. trace w' = trace w @ evs
             \<and> map call_output (invocations evs) =
                 [''images/blanche/004-small.webp'', ''images/blanche/004-medium.webp'',
                  ''images/blanche/004-large.webp'', ''images/blanche/004-thumbnail.webp''])
       \<and> fst t' = fst t + 4
       \<and> (\<forall>p\<in>set [''images/blanche/004-small.webp'', ''images/blanche/004-medium.webp'',
                     ''images/blanche/004-large.webp'', ''images/blanche/004-thumbnail.webp''].
             \<exists>b. map_of (fsys w') p = Some (File b))
       \<and> (\<forall>p. p \<notin> set [''images/blanche/004-small.webp'', ''images/blanche/004-medium.webp'',
                         ''images/blanche/004-large.webp'', ''images/blanche/004-thumbnail.webp'']
             \<longrightarrow> map_of (fsys w') p = map_of (fsys w) p)"
proof -
  let ?szs = "sizes config_large"
  let ?w0 = "emit (Log (SourceLine ''004.png'' (size_text (fsys w) (src_path ''004.png'')))) w"
  have names: "map (\<lambda>(fn, sz). outputName_of fn sz) config_pairs =
           map (\<lambda>(fn, sz). strip_ext fn ''.png'' @ ''-'' @ suffix sz @ ''.webp'') config_pairs"
    using config_names_as_specified
    by (simp add: config_output_names spec_output_name_def)
  have l: "sizes_loop sharp ''004.png'' (src_path ''004.png'') ?szs t ?w0 = Return t' w'"
    using assms(3,4) by (simp add: file_body_present)
  obtain evs where
    tr: "trace w' = trace ?w0 @ evs"
    and inv: "invocations evs = map (pair_call ''004.png'') ?szs"
    and c: "fst t' = fst t + conversions evs"
    and f: "snd t' = snd t + failures evs"
    and n: "conversions evs + failures evs = length ?szs"
    using sizes_loop_effect [of sharp "''004.png''" ?szs t ?w0] l by auto
  have outs: "map call_output (map (pair_call ''004.png'') ?szs) = outputs_004"
    using large_outputs_004 by (simp add: comp_def)
  have calls: "\<exists>evs. trace w' = trace w @ evs
             \<and> map call_output (invocations evs) = outputs_004"
    by (rule exI [of _ "Log (SourceLine ''004.png'' (size_text (fsys w) (src_path ''004.png''))) # evs"])
       (simp add: tr inv outs del: map_map)
  have count: "fst t' = fst t + 4"
    using c f n assms(5) by (simp add: config_large_def)
  have d: "distinct (map (out_path ''004.png'') ?szs)"
    by (simp only: large_outputs_004) (simp add: outputs_004_def)
  have "\<forall>sz\<in>set ?szs. \<exists>b. map_of (fsys w') (out_path ''004.png'' sz) = Some (File b)"
    using sizes_loop_written [OF assms(1,2) d l assms(5)] .
  then have "\<forall>p\<in>set (map (out_path ''004.png'') ?szs). \<exists>b. map_of (fsys w') p = Some (File b)"
    by simp
  then have written: "\<forall>p\<in>set outputs_004. \<exists>b. map_of (fsys w') p = Some (File b)"
    by (simp only: large_outputs_004)
  have others: "\<forall>p. p \<notin> set outputs_004 \<longrightarrow> map_of (fsys w') p = map_of (fsys w) p"
  proof (intro allI impI)
    fix p assume "p \<notin> set outputs_004"
    then have "p \<notin> set (map (out_path ''004.png'') ?szs)"
      by (simp add: large_outputs_004)
    then have "\<forall>sz\<in>set ?szs. p \<noteq> out_path ''004.png'' sz"
      by auto
    then have "map_of (fsys w') p = map_of (fsys ?w0) p"
      using sizes_loop_frame [OF assms(1) _ l] by blast
    then show "map_of (fsys w') p = map_of (fsys w) p"
      by simp
  qed
  show ?thesis
    using names calls count written others unfolding outputs_004_def by (intro conjI)
qed

theorem output_names_strip_extension_witness:
  "keeps_other_paths (stable_codec copy_enc) \<and> writes_output (stable_codec copy_enc)
   \<and> existsSync (fsys demo_world) (path_join inputDir ''004.png'')
   \<and> file_body (stable_codec copy_enc) (sizes config_large) ''004.png'' (0, 0) demo_world =
       Return (4, 0) demo_004
   \<and> map (\<lambda>(fn, sz). outputName_of fn sz) config_pairs =
       map (\<lambda>(fn, sz). strip_ext fn ''.png'' @ ''-'' @ suffix sz @ ''.webp'') config_pairs
   \<and> (\<exists>evs. trace demo_004 = trace demo_world @ evs
         \<and> map call_output (invocations evs) =
             [''images/blanche/004-small.webp'', ''images/blanche/004-medium.webp'',
              ''images/blanche/004-large.webp'', ''images/blanche/004-thumbnail.webp''])
   \<and> (\<exists>b. map_of (fsys demo_004) ''images/blanche/004-thumbnail.webp'' = Some (File b))
   \<and> map_of (fsys demo_004) ''images/blanche/old.webp'' =
       map_of (fsys demo_world) ''images/blanche/old.webp''"
  using stable_codec_keeps [of copy_enc] stable_codec_writes [of copy_enc] demo_exists_004
    demo_file_body_004
    output_names_strip_extension [OF stable_codec_keeps stable_codec_writes demo_exists_004
      demo_file_body_004]
  by simp

text \<open>
  C6, as stated, fails: the traversal of the tiers always completes, and the status can
  still be 1. Where the input directory does not exist, every file is skipped, the
  traversal ends with the tally at zero, \<^verbatim>\<open>readdirSync\<close> throws in the summary, the
  error escapes \<^verbatim>\<open>processImages\<close> and the process ends with status 1.
\<close>

theorem exit_status_counterexample:
  "value_of (traverse (stable_codec demo_enc) no_directory) = Some (0, 0)
   \<and> fst (script (stable_codec demo_enc) no_directory) = 1"
proof -
  obtain w1 where tv: "traverse (stable_codec demo_enc) no_directory = Return (0, 0) w1"
    and fs: "fsys w1 = []"
    using no_directory_traverse by blast
  have "\<not> summary_ok (fsys w1)"
    by (simp add: fs summary_ok_def readdir_def)
  then obtain e where "report (0, 0) w1 = Throw e (w1\<lparr>trace := trace w1 @ summary_lines (0, 0)\<rparr>)"
    using report_Throw by blast
  then show ?thesis
    using tv by (simp add: script_def processImages_def)
qed

text \<open>
  C6, amended. The traversal of the tiers never throws, whatever the codec does. The
  process ends with status 0 exactly when \<^verbatim>\<open>processImages\<close> returns, that is when
  the directory listing and every size read of the summary succeed, which does not
  depend on the tally; it ends with a non-zero status exactly when an error escapes
  \<^verbatim>\<open>processImages\<close>, and then the error has been reported (the last line written)
  and the status is 1.
\<close>

theorem exit_status:
  "\<exists>t w1. traverse sharp w = Return t w1
     \<and> fst (script sharp w) = (if summary_ok (fsys w1) then 0 else 1)
     \<and> ((fst (script sharp w) = 0) = (\<exists>v w2. processImages sharp w = Return v w2))
     \<and> ((fst (script sharp w) \<noteq> 0) =
          (\<exists>e w2. processImages sharp w = Throw e w2
             \<and> script sharp w = (1, emit (ErrLog (FatalError e)) w2)))"
proof -
  obtain t w1 where tv: "traverse sharp w = Return t w1"
    using traverse_effect [of sharp w] by blast
  have p: "processImages sharp w = report t w1"
    using tv by (simp add: processImages_def)
  have "fst (script sharp w) = (if summary_ok (fsys w1) then 0 else 1)"
  proof (cases "summary_ok (fsys w1)")
    case True
    then show ?thesis by (simp add: script_def p report_Return)
  next
    case False
    then obtain e where "report t w1 = Throw e (w1\<lparr>trace := trace w1 @ summary_lines t\<rparr>)"
      using report_Throw by blast
    with False show ?thesis by (simp add: script_def p)
  qed
  moreover have "(fst (script sharp w) = 0) = (\<exists>v w2. processImages sharp w = Return v w2)"
    by (cases "processImages sharp w") (simp_all add: script_def)
  moreover have "(fst (script sharp w) \<noteq> 0) =
          (\<exists>e w2. processImages sharp w = Throw e w2
             \<and> script sharp w = (1, emit (ErrLog (FatalError e)) w2))"
    by (cases "processImages sharp w") (simp_all add: script_def)
  ultimately have "traverse sharp w = Return t w1
     \<and> fst (script sharp w) = (if summary_ok (fsys w1) then 0 else 1)
     \<and> ((fst (script sharp w) = 0) = (\<exists>v w2. processImages sharp w = Return v w2))
     \<and> ((fst (script sharp w) \<noteq> 0) =
          (\<exists>e w2. processImages sharp w = Throw e w2
             \<and> script sharp w = (1, emit (ErrLog (FatalError e)) w2)))"
    using tv by (intro conjI)
  then show ?thesis by (intro exI)
qed

text \<open>
  C7. When \<^verbatim>\<open>processImages\<close> returns, the last three lines it printed are the total
  size, the baseline of 153 MB and the savings. The total is the sum of the sizes of all
  entries of the input directory whose name ends in \<^verbatim>\<open>.webp\<close>, as the directory is
  after the traversal, whoever wrote them; the savings are
  \<open>(1 - total / (153 * 1024 * 1024)) * 100\<close>.
\<close>

theorem summary_reports_directory_total:
  assumes "processImages sharp w = Return v w'"
  shows "\<exists>t w1 names total.
           traverse sharp w = Return t w1
         \<and> fsys w' = fsys w1
         \<and> readdir (fsys w1) inputDir = Some names
         \<and> list_all (\<lambda>n. existsSync (fsys w1) (path_join inputDir n))
              (filter (\<lambda>f. ends_with f ''.webp'') names)
         \<and> total = sum_list (map (entry_size (fsys w1)) (filter (\<lambda>f. ends_with f ''.webp'') names))
         \<and> (\<exists>pre. trace w' = pre @
               [Log (TotalWebp total), Log (OriginalEstimate 153),
                Log (Savings ((1 - of_nat total / (153 * 1024 * 1024)) * 100))])"
proof -
  obtain t w1 where tv: "traverse sharp w = Return t w1"
    using traverse_effect [of sharp w] by blast
  have p: "report t w1 = Return v w'"
    using tv assms by (simp add: processImages_def)
  have ok: "summary_ok (fsys w1)"
  proof (rule ccontr)
    assume "\<not> summary_ok (fsys w1)"
    then obtain e where "report t w1 = Throw e (w1\<lparr>trace := trace w1 @ summary_lines t\<rparr>)"
      using report_Throw by blast
    with p show False by simp
  qed
  then obtain names where
    rd: "readdir (fsys w1) inputDir = Some names"
    and all: "list_all (\<lambda>n. existsSync (fsys w1) (path_join inputDir n))
               (filter (\<lambda>f. ends_with f ''.webp'') names)"
    by (auto simp: summary_ok_def split: option.splits)
  let ?total = "sum_list (map (entry_size (fsys w1)) (filter (\<lambda>f. ends_with f ''.webp'') names))"
  have wt: "webp_total (fsys w1) = ?total"
    using rd by (simp add: webp_total_def)
  have w': "w' = w1\<lparr>trace := trace w1 @ summary_lines t @
                     [Log (TotalWebp ?total), Log (OriginalEstimate 153),
                      Log (Savings (savings ?total))]\<rparr>"
    using p ok wt by (simp add: report_Return)
  have "fsys w' = fsys w1"
    by (simp add: w')
  moreover have "\<exists>pre. trace w' = pre @
               [Log (TotalWebp ?total), Log (OriginalEstimate 153),
                Log (Savings ((1 - of_nat ?total / (153 * 1024 * 1024)) * 100))]"
    by (rule exI [of _ "trace w1 @ summary_lines t"]) (simp add: w' savings_def)
  ultimately show ?thesis using tv rd all by blast
qed

text \<open>In the concrete run the directory held \<^verbatim>\<open>old.webp\<close> (3 bytes) before the
  run, and the run wrote three files of 5 bytes: the total reported is 18.\<close>

theorem summary_reports_directory_total_witness:
  "processImages (stable_codec demo_enc) demo_world = Return Undefined demo_final
   \<and> Log (TotalWebp 18) \<in> set (trace demo_final)
   \<and> (\<exists>t w1 names total.
           traverse (stable_codec demo_enc) demo_world = Return t w1
         \<and> fsys demo_final = fsys w1
         \<and> readdir (fsys w1) inputDir = Some names
         \<and> list_all (\<lambda>n. existsSync (fsys w1) (path_join inputDir n))
              (filter (\<lambda>f. ends_with f ''.webp'') names)
         \<and> total = sum_list (map (entry_size (fsys w1)) (filter (\<lambda>f. ends_with f ''.webp'') names))
         \<and> (\<exists>pre. trace demo_final = pre @
               [Log (TotalWebp total), Log (OriginalEstimate 153),
                Log (Savings ((1 - of_nat total / (153 * 1024 * 1024)) * 100))]))"
  using demo_run summary_reports_directory_total [OF demo_run]
  by (simp add: demo_final_def)

text \<open>
  C8. \<^verbatim>\<open>convertImage\<close> asks the codec for a resize to the width of the size-spec
  with \<^verbatim>\<open>withoutEnlargement: true\<close> and \<^verbatim>\<open>fit: 'inside'\<close>. Under the contract
  of the codec for such calls (the width of the image it writes exceeds neither the
  requested width nor the width of the source), every successful conversion leaves an
  output whose width is at most the target width and at most the width of the source.
  The width of an image is a function of its bytes, a parameter here.
\<close>

theorem no_upscaling_under_codec_contract:
  assumes "no_upscale_contract width_of sharp"
    and "sharp (pair_call filename sz) (fsys w) = Written fs'"
  shows "convertImage sharp (path_join inputDir filename)
             (path_join inputDir (outputName_of filename sz)) (width sz) (quality sz) w =
           Return True \<lparr>fsys = fs', trace = trace w @ [Invoke (pair_call filename sz)]\<rparr>
       \<and> withoutEnlargement (pair_call filename sz)
       \<and> fit (pair_call filename sz) = Inside
       \<and> resize_width (pair_call filename sz) = width sz
       \<and> (\<exists>src out ws wo.
             map_of (fsys w) (path_join inputDir filename) = Some (File src)
           \<and> map_of fs' (path_join inputDir (outputName_of filename sz)) = Some (File out)
           \<and> width_of src = Some ws \<and> width_of out = Some wo
           \<and> wo \<le> width sz \<and> wo \<le> ws)"
proof -
  have o: "withoutEnlargement (pair_call filename sz)" "fit (pair_call filename sz) = Inside"
    "resize_width (pair_call filename sz) = width sz"
    by (simp_all add: pair_call_def conversion_call_def)
  have "\<exists>src out ws wo.
           map_of (fsys w) (call_input (pair_call filename sz)) = Some (File src)
         \<and> map_of fs' (call_output (pair_call filename sz)) = Some (File out)
         \<and> width_of src = Some ws \<and> width_of out = Some wo
         \<and> wo \<le> resize_width (pair_call filename sz) \<and> wo \<le> ws"
    using assms o unfolding no_upscale_contract_def by blast
  then have e: "\<exists>src out ws wo.
             map_of (fsys w) (path_join inputDir filename) = Some (File src)
           \<and> map_of fs' (path_join inputDir (outputName_of filename sz)) = Some (File out)
           \<and> width_of src = Some ws \<and> width_of out = Some wo
           \<and> wo \<le> width sz \<and> wo \<le> ws"
    by (simp add: o)
  have c: "convertImage sharp (path_join inputDir filename)
             (path_join inputDir (outputName_of filename sz)) (width sz) (quality sz) w =
           Return True \<lparr>fsys = fs', trace = trace w @ [Invoke (pair_call filename sz)]\<rparr>"
    using assms(2) by (simp add: convertImage_eq pair_call_def)
  show ?thesis
    using c o e by (intro conjI)
qed

theorem no_upscaling_under_codec_contract_witness:
  "no_upscale_contract demo_width (stable_codec demo_enc)
   \<and> stable_codec demo_enc (pair_call ''004.png'' small) (fsys demo_world) =
       Written (demo_fs @ [(''images/blanche/004-small.webp'', File [1, 2, 3, 4, 5])])
   \<and> (\<exists>src out ws wo.
         map_of (fsys demo_world) (path_join inputDir ''004.png'') = Some (File src)
       \<and> map_of (demo_fs @ [(''images/blanche/004-small.webp'', File [1, 2, 3, 4, 5])])
            (path_join inputDir (outputName_of ''004.png'' small)) = Some (File out)
       \<and> demo_width src = Some ws \<and> demo_width out = Some wo
       \<and> wo \<le> width small \<and> wo \<le> ws)"
  using demo_contract demo_small_written
    no_upscaling_under_codec_contract [OF demo_contract demo_small_written]
  by simp

text \<open>
  C9. A stable codec is one whose answer depends only on the content of the source file
  and on the width and quality it is asked for, and that writes the output path and
  nothing else: \<open>stable_codec enc\<close>, for any encoder \<open>enc\<close>. With such a codec, a
  second run on the filesystem the first run has left, from the same console state, is
  the first run again: \<^verbatim>\<open>processImages\<close> has the same outcome (the same lines
  printed, among them the tally and the total size, the same codec calls with the same
  output paths, the same filesystem), the traversal returns the same tally, and every
  file the first run wrote is written again with the same content, so that the
  filesystem does not change.
\<close>

theorem rerun_is_idempotent:
  "processImages (stable_codec enc)
     (world_of (processImages (stable_codec enc) w)\<lparr>trace := trace w\<rparr>) =
   processImages (stable_codec enc) w
   \<and> traverse (stable_codec enc)
       (world_of (processImages (stable_codec enc) w)\<lparr>trace := trace w\<rparr>) =
     traverse (stable_codec enc) w
   \<and> fsys (world_of (processImages (stable_codec enc)
            (world_of (processImages (stable_codec enc) w)\<lparr>trace := trace w\<rparr>))) =
     fsys (world_of (processImages (stable_codec enc) w))"
proof -
  let ?c = "stable_codec enc"
  obtain t w1 where tv: "traverse ?c w = Return t w1"
    using traverse_effect [of ?c w] by blast
  have p: "processImages ?c w = report t w1"
    using tv by (simp add: processImages_def)
  have "fsys (world_of (processImages ?c w)) = fsys w1"
    using p report_keeps_fs by simp
  then have w2: "world_of (processImages ?c w)\<lparr>trace := trace w\<rparr> = at_fs (fsys w1) w"
    by (simp add: at_fs_def)
  have tv2: "traverse ?c (at_fs (fsys w1) w) = Return t w1"
    using tv by (rule traverse_twice)
  then have p2: "processImages ?c (at_fs (fsys w1) w) = report t w1"
    by (simp add: processImages_def)
  show ?thesis
    using p p2 tv tv2 w2 by simp
qed

text \<open>
  C10. \<^verbatim>\<open>convertImage\<close> never throws: whatever the codec does with the call, the
  function returns \<open>True\<close> when the codec fulfilled and \<open>False\<close>, after logging the
  error message, when it rejected. \<^verbatim>\<open>getFileSize\<close> never throws either: it returns
  the size text, or the placeholder \<^verbatim>\<open>N/A\<close> when the size cannot be read.
\<close>

theorem item_boundary_total:
  "convertImage sharp ip outp wd q w =
     (case sharp (conversion_call ip outp wd q) (fsys w) of
        Written fs' \<Rightarrow>
          Return True \<lparr>fsys = fs', trace = trace w @ [Invoke (conversion_call ip outp wd q)]\<rparr>
      | Failed e fs' \<Rightarrow>
          Return False
            \<lparr>fsys = fs',
             trace = trace w @ [Invoke (conversion_call ip outp wd q),
                                ErrLog (ConvertError ip (message e))]\<rparr>)
   \<and> (\<forall>e w'. convertImage sharp ip outp wd q w \<noteq> Throw e w')
   \<and> getFileSize p w =
       Return (case stat_size (fsys w) p of
                 Some n \<Rightarrow> toFixed2_MB n @ '' MB''
               | None \<Rightarrow> ''N/A'') w
   \<and> (\<forall>e w'. getFileSize p w \<noteq> Throw e w')"
  by (simp add: convertImage_eq getFileSize_eq size_text_def split: codec_result.splits)

end
